theory Spec2Isabelle
  imports Main
begin

section \<open>The in-memory match service (src/api/index.ts)\<close>

subsection \<open>Data model\<close>

text \<open>
  The string literals \<^verbatim>\<open>"round1" | "round2" | "round3"\<close> of \<^verbatim>\<open>RoundKey\<close> and
  \<^verbatim>\<open>"team1" | "team2"\<close> of the winner fields are enumerations.
\<close>

datatype RoundKey = Round1 | Round2 | Round3

datatype TeamName = Team1 | Team2

text \<open>
  \<^verbatim>\<open>Card\<close>, \<^verbatim>\<open>Team\<close> and \<^verbatim>\<open>Play\<close> as inferred from the Zod schemas. A card that
  reached a play has passed \<^verbatim>\<open>CardSchema\<close>; its value came out of \<^verbatim>\<open>parseInt\<close>,
  so it is an integer. Field names that clash with constants of HOL carry a prefix
  (\<^verbatim>\<open>value\<close>, \<^verbatim>\<open>suit\<close>, \<^verbatim>\<open>id\<close>, \<^verbatim>\<open>card\<close>).
\<close>

record Card =
  cardValue :: int
  cardSuit :: string

record Team =
  player1 :: string
  player2 :: string

record Play =
  playId :: string
  userId :: string
  timestamp :: int
  playCard :: Card

text \<open>
  \<^verbatim>\<open>GameState\<close>. The optional fields \<^verbatim>\<open>winner\<close> and \<^verbatim>\<open>gameComplete\<close> are
  \<open>None\<close> while absent. \<^verbatim>\<open>roundWinners\<close> is created as \<^verbatim>\<open>{}\<close> with every match and
  only ever extended, so it is a map that is always present.
\<close>

record GameState =
  team1 :: Team
  team2 :: Team
  currentTurn :: string
  currentRound :: RoundKey
  roundWinners :: "RoundKey \<rightharpoonup> TeamName"
  winner :: "TeamName option"
  gameComplete :: "bool option"

text \<open>\<^verbatim>\<open>Match\<close>: every round key is present in \<^verbatim>\<open>rounds\<close>, so it is a total function.\<close>

record Match =
  state :: GameState
  rounds :: "RoundKey \<Rightarrow> Play list"

text \<open>The global table \<^verbatim>\<open>matches: Record<string, Match>\<close>.\<close>

type_synonym matches = "string \<rightharpoonup> Match"

subsection \<open>Card validation\<close>

text \<open>
  \<^verbatim>\<open>CardSchema.parse({ value: cardValue, suit })\<close>. The value is what \<^verbatim>\<open>parseInt\<close>
  returned: \<open>None\<close> stands for \<^verbatim>\<open>NaN\<close>, which \<^verbatim>\<open>z.number()\<close> refuses. The result
  \<open>None\<close> is the thrown \<^verbatim>\<open>ZodError\<close>.
\<close>

definition suits :: "string list" where
  "suits = [''hearts'', ''diamonds'', ''clubs'', ''spades'']"

definition CardSchema_parse :: "int option \<Rightarrow> string \<Rightarrow> Card option" where
  "CardSchema_parse v s =
     (case v of
        None \<Rightarrow> None
      | Some n \<Rightarrow>
          if 1 \<le> n \<and> n \<le> 13 \<and> s \<in> set suits
          then Some \<lparr>cardValue = n, cardSuit = s\<rparr>
          else None)"

subsection \<open>Helper functions\<close>

text \<open>
  \<^verbatim>\<open>Array.prototype.reduce\<close> without an initial value: it throws a \<^verbatim>\<open>TypeError\<close> on an
  empty array (\<open>None\<close>) and otherwise folds from the first element over the rest.
\<close>

fun reduce :: "('a \<Rightarrow> 'a \<Rightarrow> 'a) \<Rightarrow> 'a list \<Rightarrow> 'a option" where
  "reduce f [] = None"
| "reduce f (x # xs) = Some (foldl f x xs)"

definition higher :: "Play \<Rightarrow> Play \<Rightarrow> Play" where
  "higher highest current =
     (if cardValue (playCard current) > cardValue (playCard highest) then current else highest)"

definition determineRoundWinner :: "Play list \<Rightarrow> GameState \<Rightarrow> TeamName option" where
  "determineRoundWinner plays st =
     (case reduce higher plays of
        None \<Rightarrow> None
      | Some winningPlay \<Rightarrow>
          if userId winningPlay = player1 (team1 st) \<or> userId winningPlay = player2 (team1 st)
          then Some Team1
          else Some Team2)"

text \<open>
  The \<^verbatim>\<open>forEach\<close> of \<^verbatim>\<open>determineGameWinner\<close> over \<^verbatim>\<open>Object.values(rounds)\<close>, with
  the two counters as the accumulator. \<open>None\<close> is an exception thrown by
  \<^verbatim>\<open>determineRoundWinner\<close>.
\<close>

fun countWins :: "GameState \<Rightarrow> Play list list \<Rightarrow> nat \<times> nat \<Rightarrow> (nat \<times> nat) option" where
  "countWins st [] acc = Some acc"
| "countWins st (roundPlays # rest) (team1Wins, team2Wins) =
     (if length roundPlays = 4 then
        (case determineRoundWinner roundPlays st of
           None \<Rightarrow> None
         | Some roundWinner \<Rightarrow>
             countWins st rest
               (if roundWinner = Team1 then team1Wins + 1 else team1Wins,
                if roundWinner = Team2 then team2Wins + 1 else team2Wins))
      else countWins st rest (team1Wins, team2Wins))"

text \<open>
  \<^verbatim>\<open>determineGameWinner\<close>: the outer \<open>None\<close> is an exception, \<open>Some None\<close> is the
  returned \<^verbatim>\<open>undefined\<close>.
\<close>

definition determineGameWinner ::
  "(RoundKey \<Rightarrow> Play list) \<Rightarrow> GameState \<Rightarrow> TeamName option option" where
  "determineGameWinner rs st =
     (case countWins st [rs Round1, rs Round2, rs Round3] (0, 0) of
        None \<Rightarrow> None
      | Some (team1Wins, team2Wins) \<Rightarrow>
          Some (if team1Wins \<ge> 2 then Some Team1
                else if team2Wins \<ge> 2 then Some Team2
                else None))"

definition getNextPlayer :: "GameState \<Rightarrow> string \<Rightarrow> string" where
  "getNextPlayer st currentPlayer =
     (if currentPlayer = player1 (team1 st) \<or> currentPlayer = player2 (team1 st)
      then (if currentPlayer = player1 (team1 st)
            then player1 (team2 st) else player2 (team2 st))
      else (if currentPlayer = player1 (team2 st)
            then player2 (team1 st) else player1 (team1 st)))"

subsection \<open>Routes\<close>

text \<open>
  What a route answers: the three rejections of the play route, the catch-all
  \<^verbatim>\<open>400 "Invalid request"\<close> for any other exception, and the accepted play with the
  match as it is sent back.
\<close>

datatype response =
    MatchNotFound
  | ZodError
  | NotYourTurn
  | InvalidRequest
  | Accepted Match

text \<open>
  \<^verbatim>\<open>POST /v1/match/create\<close> with a body that passed \<^verbatim>\<open>CreateMatchBodySchema\<close>. The
  identifier is what \<^verbatim>\<open>crypto.randomUUID()\<close> returned.
\<close>

definition newMatch :: "Team \<Rightarrow> Team \<Rightarrow> Match" where
  "newMatch t1 t2 =
     \<lparr>state = \<lparr>team1 = t1, team2 = t2, currentTurn = player1 t1, currentRound = Round1,
               roundWinners = Map.empty, winner = None, gameComplete = None\<rparr>,
      rounds = (\<lambda>_. [])\<rparr>"

definition createMatch :: "matches \<Rightarrow> string \<Rightarrow> Team \<Rightarrow> Team \<Rightarrow> matches" where
  "createMatch ms matchId t1 t2 = ms(matchId \<mapsto> newMatch t1 t2)"

text \<open>
  The "move to next round" step of the play route: round1 goes to round2, round2 to
  round3, and round3 stays the current round.
\<close>

definition nextRound :: "RoundKey \<Rightarrow> RoundKey" where
  "nextRound r = (if r = Round1 then Round2 else if r = Round2 then Round3 else r)"

text \<open>
  \<^verbatim>\<open>GET /v1/:matchId/:userId/:cardvalue/:suit\<close>, the play route. The arguments after the
  table are the route parameters (the card value as \<^verbatim>\<open>parseInt\<close> returned it), then
  the results of \<^verbatim>\<open>crypto.randomUUID()\<close> and \<^verbatim>\<open>Date.now()\<close>. The handler mutates the
  match in place as it goes, so an exception after the \<^verbatim>\<open>push\<close> leaves the mutations
  made so far in the table; the model returns the table at that point.
\<close>

definition submitPlay ::
  "matches \<Rightarrow> string \<Rightarrow> string \<Rightarrow> int option \<Rightarrow> string \<Rightarrow> string \<Rightarrow> int \<Rightarrow> response \<times> matches" where
  "submitPlay ms matchId uid cardValue' suit newId now =
     (case ms matchId of
        None \<Rightarrow> (MatchNotFound, ms)
      | Some match \<Rightarrow>
          (case CardSchema_parse cardValue' suit of
             None \<Rightarrow> (ZodError, ms)
           | Some validatedCard \<Rightarrow>
               if currentTurn (state match) \<noteq> uid then (NotYourTurn, ms)
               else
                 let play = \<lparr>playId = newId, userId = uid, timestamp = now,
                             playCard = validatedCard\<rparr>;
                     cur = currentRound (state match);
                     currentRoundPlays = rounds match cur @ [play];
                     rs = (rounds match)(cur := currentRoundPlays);
                     st1 = (state match)\<lparr>currentTurn := getNextPlayer (state match) uid\<rparr>
                 in
                   if length currentRoundPlays = 4 then
                     (case determineRoundWinner currentRoundPlays st1 of
                        None \<Rightarrow>
                          (InvalidRequest, ms(matchId \<mapsto> \<lparr>state = st1, rounds = rs\<rparr>))
                      | Some roundWinner \<Rightarrow>
                          let st2 = st1\<lparr>roundWinners := (roundWinners st1)(cur \<mapsto> roundWinner)\<rparr>;
                              st3 = st2\<lparr>currentRound := nextRound cur\<rparr>
                          in
                            (case determineGameWinner rs st3 of
                               None \<Rightarrow>
                                 (InvalidRequest, ms(matchId \<mapsto> \<lparr>state = st3, rounds = rs\<rparr>))
                             | Some None \<Rightarrow>
                                 (Accepted \<lparr>state = st3, rounds = rs\<rparr>,
                                  ms(matchId \<mapsto> \<lparr>state = st3, rounds = rs\<rparr>))
                             | Some (Some gameWinner) \<Rightarrow>
                                 let st4 = st3\<lparr>winner := Some gameWinner,
                                               gameComplete := Some True\<rparr>
                                 in (Accepted \<lparr>state = st4, rounds = rs\<rparr>,
                                     ms(matchId \<mapsto> \<lparr>state = st4, rounds = rs\<rparr>))))
                   else
                     (Accepted \<lparr>state = st1, rounds = rs\<rparr>,
                      ms(matchId \<mapsto> \<lparr>state = st1, rounds = rs\<rparr>))))"

section \<open>The Convex-backed match service (the Convex functions of the matches and plays tables, and the API routes over them)\<close>

subsection \<open>Documents and tables\<close>

text \<open>
  The two tables of \<^verbatim>\<open>convex/schema.ts\<close>. A document identifier \<^verbatim>\<open>Id<"matches">\<close> is
  the position of the document in its table: \<^verbatim>\<open>ctx.db.insert\<close> appends and returns the
  new position, nothing is ever deleted, and \<^verbatim>\<open>collect()\<close> returns documents in creation
  order. The play fields \<^verbatim>\<open>round\<close> and \<^verbatim>\<open>timestamp\<close> carry a prefix, as the names are
  taken.
\<close>

record match_doc =
  team1_player1 :: string
  team1_player2 :: string
  team2_player1 :: string
  team2_player2 :: string
  current_turn :: string
  current_round :: RoundKey
  round1_winner :: "TeamName option"
  round2_winner :: "TeamName option"
  round3_winner :: "TeamName option"
  game_winner :: "TeamName option"
  is_complete :: bool

record play_doc =
  match_id :: nat
  user_id :: string
  play_round :: RoundKey
  play_timestamp :: int
  card_value :: int
  card_suit :: string

record db =
  matches_table :: "match_doc list"
  plays_table :: "play_doc list"

text \<open>\<^verbatim>\<open>ctx.db.get(id)\<close>: the document, or \<^verbatim>\<open>null\<close>.\<close>

definition db_get :: "db \<Rightarrow> nat \<Rightarrow> match_doc option" where
  "db_get d i = (if i < length (matches_table d) then Some (matches_table d ! i) else None)"

subsection \<open>The matches functions\<close>

text \<open>
  The mutation \<^verbatim>\<open>create\<close> of the matches module: the arguments, with the four winner
  fields left undefined. It returns the new identifier.
\<close>

definition matches_create ::
  "db \<Rightarrow> string \<Rightarrow> string \<Rightarrow> string \<Rightarrow> string \<Rightarrow> string \<Rightarrow> RoundKey \<Rightarrow> bool \<Rightarrow> nat \<times> db" where
  "matches_create d t1p1 t1p2 t2p1 t2p2 turn rnd complete =
     (length (matches_table d),
      d\<lparr>matches_table := matches_table d @
          [\<lparr>team1_player1 = t1p1, team1_player2 = t1p2, team2_player1 = t2p1,
            team2_player2 = t2p2, current_turn = turn, current_round = rnd,
            round1_winner = None, round2_winner = None, round3_winner = None,
            game_winner = None, is_complete = complete\<rparr>]\<rparr>)"

subsection \<open>The plays functions\<close>

text \<open>The query \<^verbatim>\<open>getByMatch\<close>.\<close>

definition plays_getByMatch :: "db \<Rightarrow> nat \<Rightarrow> play_doc list" where
  "plays_getByMatch d matchId = filter (\<lambda>p. match_id p = matchId) (plays_table d)"

text \<open>The helpers \<^verbatim>\<open>getNextPlayer\<close> and \<^verbatim>\<open>determineRoundWinner\<close> of the plays module.\<close>

definition plays_getNextPlayer :: "match_doc \<Rightarrow> string \<Rightarrow> string" where
  "plays_getNextPlayer match currentPlayer =
     (if currentPlayer = team1_player1 match then team2_player1 match
      else if currentPlayer = team2_player1 match then team1_player2 match
      else if currentPlayer = team1_player2 match then team2_player2 match
      else team1_player1 match)"

definition plays_higher :: "play_doc \<Rightarrow> play_doc \<Rightarrow> play_doc" where
  "plays_higher highest current =
     (if card_value current > card_value highest then current else highest)"

definition plays_determineRoundWinner :: "play_doc list \<Rightarrow> match_doc \<Rightarrow> TeamName option" where
  "plays_determineRoundWinner plays match =
     (case reduce plays_higher plays of
        None \<Rightarrow> None
      | Some winningPlay \<Rightarrow>
          if user_id winningPlay = team1_player1 match \<or> user_id winningPlay = team1_player2 match
          then Some Team1
          else Some Team2)"

text \<open>
  What the mutation \<^verbatim>\<open>create\<close> of the plays module throws: its two explicit errors, and
  the \<^verbatim>\<open>TypeError\<close> of \<^verbatim>\<open>reduce\<close> on an empty array. A mutation that throws commits
  nothing.
\<close>

datatype mutation_error = Match_not_found | Not_your_turn | Reduce_of_empty_array

text \<open>The assignment \<^verbatim>\<open>updateData[`${args.round}_winner`] = roundWinner\<close>, as it lands in the patched document.\<close>

definition set_round_winner :: "RoundKey \<Rightarrow> TeamName \<Rightarrow> match_doc \<Rightarrow> match_doc" where
  "set_round_winner r w m =
     (case r of
        Round1 \<Rightarrow> m\<lparr>round1_winner := Some w\<rparr>
      | Round2 \<Rightarrow> m\<lparr>round2_winner := Some w\<rparr>
      | Round3 \<Rightarrow> m\<lparr>round3_winner := Some w\<rparr>)"

text \<open>
  The mutation \<^verbatim>\<open>create\<close> of the plays module. \<open>args\<close> is the play document to insert;
  its round is whatever the caller passes. \<^verbatim>\<open>updateData\<close> is applied by
  \<^verbatim>\<open>ctx.db.patch\<close> to the match document read at the start, so \<open>upd1\<close> to \<open>upd4\<close> are
  that document with the fields of \<^verbatim>\<open>updateData\<close> overwritten step by step. The
  game-winner test reads \<^verbatim>\<open>match.round1_winner\<close> and \<^verbatim>\<open>match.round2_winner\<close> from the
  document as it was read, before the patch. The result is the new play's identifier and
  the database after the insert and the patch.
\<close>

definition plays_create :: "db \<Rightarrow> play_doc \<Rightarrow> mutation_error + nat \<times> db" where
  "plays_create d args =
     (case db_get d (match_id args) of
        None \<Rightarrow> Inl Match_not_found
      | Some match \<Rightarrow>
          if current_turn match \<noteq> user_id args then Inl Not_your_turn
          else
            let newPlayId = length (plays_table d);
                plays' = plays_table d @ [args];
                roundPlays = filter (\<lambda>p. match_id p = match_id args \<and> play_round p = play_round args) plays';
                upd1 = match\<lparr>current_turn := plays_getNextPlayer match (user_id args)\<rparr>
            in
              if length roundPlays = 4 then
                (case plays_determineRoundWinner roundPlays match of
                   None \<Rightarrow> Inl Reduce_of_empty_array
                 | Some roundWinner \<Rightarrow>
                     let upd2 = set_round_winner (play_round args) roundWinner upd1;
                         upd3 = (if play_round args = Round1 then upd2\<lparr>current_round := Round2\<rparr>
                                 else if play_round args = Round2 then upd2\<lparr>current_round := Round3\<rparr>
                                 else upd2);
                         upd4 =
                           (if (round1_winner match = Some Team1 \<and> round2_winner match = Some Team1) \<or>
                               (round1_winner match = Some Team1 \<and> round2_winner match = Some Team2 \<and>
                                roundWinner = Team1) \<or>
                               (round1_winner match = Some Team2 \<and> round2_winner match = Some Team1 \<and>
                                roundWinner = Team1)
                            then upd3\<lparr>game_winner := Some Team1, is_complete := True\<rparr>
                            else if (round1_winner match = Some Team2 \<and> round2_winner match = Some Team2) \<or>
                               (round1_winner match = Some Team1 \<and> round2_winner match = Some Team2 \<and>
                                roundWinner = Team2) \<or>
                               (round1_winner match = Some Team2 \<and> round2_winner match = Some Team1 \<and>
                                roundWinner = Team2)
                            then upd3\<lparr>game_winner := Some Team2, is_complete := True\<rparr>
                            else upd3)
                     in Inr (newPlayId, \<lparr>matches_table = (matches_table d)[match_id args := upd4],
                                      plays_table = plays'\<rparr>))
              else Inr (newPlayId, \<lparr>matches_table = (matches_table d)[match_id args := upd1],
                                 plays_table = plays'\<rparr>))"

subsection \<open>The API routes over Convex\<close>

text \<open>
  What the play route answers: \<^verbatim>\<open>404 "Match not found"\<close>, the \<^verbatim>\<open>ZodError\<close>,
  \<^verbatim>\<open>400 "Not your turn"\<close>, the catch-all \<^verbatim>\<open>400 "Invalid request"\<close>,
  \<^verbatim>\<open>404 "Match or plays not found"\<close>, and the accepted play with the updated match
  document and the plays of the match.
\<close>

datatype convex_response =
    C_MatchNotFound
  | C_ZodError
  | C_NotYourTurn
  | C_InvalidRequest
  | C_MatchOrPlaysNotFound
  | C_Accepted match_doc "play_doc list"

text \<open>\<^verbatim>\<open>POST /v1/match/create\<close>: the first turn is team1's player1, the round is round1.\<close>

definition createMatch_convex :: "db \<Rightarrow> Team \<Rightarrow> Team \<Rightarrow> nat \<times> db" where
  "createMatch_convex d t1 t2 =
     matches_create d (player1 t1) (player2 t1) (player1 t2) (player2 t2) (player1 t1) Round1 False"

text \<open>
  \<^verbatim>\<open>GET /v1/:matchId/:userId/:cardvalue/:suit\<close> over Convex: read the match, validate the
  card, check the turn, run the mutation with the match's current round, read the match
  and its plays back. The requests of one run are handled one after the other.
\<close>

definition submitPlay_convex ::
  "db \<Rightarrow> nat \<Rightarrow> string \<Rightarrow> int option \<Rightarrow> string \<Rightarrow> int \<Rightarrow> convex_response \<times> db" where
  "submitPlay_convex d matchId uid cardValue' suit now =
     (case db_get d matchId of
        None \<Rightarrow> (C_MatchNotFound, d)
      | Some match \<Rightarrow>
          (case CardSchema_parse cardValue' suit of
             None \<Rightarrow> (C_ZodError, d)
           | Some validatedCard \<Rightarrow>
               if current_turn match \<noteq> uid then (C_NotYourTurn, d)
               else
                 (case plays_create d
                         \<lparr>match_id = matchId, user_id = uid, play_round = current_round match,
                          play_timestamp = now, card_value = cardValue validatedCard,
                          card_suit = cardSuit validatedCard\<rparr> of
                    Inl e \<Rightarrow> (C_InvalidRequest, d)
                  | Inr (newPlayId, d') \<Rightarrow>
                      (case db_get d' matchId of
                         None \<Rightarrow> (C_MatchOrPlaysNotFound, d')
                       | Some updatedMatch \<Rightarrow>
                           (C_Accepted updatedMatch (plays_getByMatch d' matchId), d')))))"

section \<open>Sequences of requests\<close>

text \<open>
  A reachable table is what a sequence of create and play requests leaves behind,
  starting from the empty table. Every play request counts, accepted or not.
\<close>

datatype event = Create string Team Team | Submit string string "int option" string string int

fun step :: "matches \<Rightarrow> event \<Rightarrow> matches" where
  "step ms (Create mid t1 t2) = createMatch ms mid t1 t2"
| "step ms (Submit mid uid cv s pid now) = snd (submitPlay ms mid uid cv s pid now)"

definition run :: "event list \<Rightarrow> matches" where "run evs = foldl step Map.empty evs"

datatype convex_event = CreateC Team Team | SubmitC nat string "int option" string int

fun convex_step :: "db \<Rightarrow> convex_event \<Rightarrow> db" where
  "convex_step d (CreateC t1 t2) = snd (createMatch_convex d t1 t2)"
| "convex_step d (SubmitC mid uid cv s now) = snd (submitPlay_convex d mid uid cv s now)"

definition convex_run :: "convex_event list \<Rightarrow> db" where
  "convex_run evs = foldl convex_step \<lparr>matches_table = [], plays_table = []\<rparr> evs"

section \<open>Notions used in the proofs\<close>

subsection \<open>In-memory service\<close>

text \<open>
  The match an accepted play leaves behind, without the exception branches (which are
  shown never to be taken): \<open>submitPlay_eq\<close> below relates it to \<open>submitPlay\<close>.
\<close>

definition acceptedMatch :: "Match \<Rightarrow> Play \<Rightarrow> Match" where
  "acceptedMatch m play =
     (let cur = currentRound (state m);
          ps = rounds m cur @ [play];
          rs = (rounds m)(cur := ps);
          st1 = (state m)\<lparr>currentTurn := getNextPlayer (state m) (userId play)\<rparr>
      in if length ps = 4 then
           (let st3 = st1\<lparr>roundWinners := (roundWinners st1)(cur := determineRoundWinner ps st1),
                          currentRound := nextRound cur\<rparr>
            in (case determineGameWinner rs st3 of
                  Some (Some g) \<Rightarrow> \<lparr>state = st3\<lparr>winner := Some g, gameComplete := Some True\<rparr>, rounds = rs\<rparr>
                | _ \<Rightarrow> \<lparr>state = st3, rounds = rs\<rparr>))
         else \<lparr>state = st1, rounds = rs\<rparr>)"

text \<open>The plays of a match across its rounds, and what holds of every reachable match.\<close>

definition allPlays :: "Match \<Rightarrow> Play list" where
  "allPlays m = rounds m Round1 @ rounds m Round2 @ rounds m Round3"

definition roundsInOrder :: "Match \<Rightarrow> bool" where
  "roundsInOrder m =
     (case currentRound (state m) of
        Round1 \<Rightarrow> length (rounds m Round1) < 4 \<and> rounds m Round2 = [] \<and> rounds m Round3 = []
      | Round2 \<Rightarrow> length (rounds m Round1) = 4 \<and> length (rounds m Round2) < 4 \<and> rounds m Round3 = []
      | Round3 \<Rightarrow> length (rounds m Round1) = 4 \<and> length (rounds m Round2) = 4)"

definition winnersRecorded :: "Match \<Rightarrow> bool" where
  "winnersRecorded m =
     (\<forall>r. roundWinners (state m) r =
          (if 4 \<le> length (rounds m r)
           then determineRoundWinner (take 4 (rounds m r)) (state m) else None))"

definition turnsFollow :: "Match \<Rightarrow> bool" where
  "turnsFollow m =
     ((\<forall>n. Suc n < length (allPlays m) \<longrightarrow>
            userId (allPlays m ! Suc n) = getNextPlayer (state m) (userId (allPlays m ! n))) \<and>
      currentTurn (state m) =
        (if allPlays m = [] then player1 (team1 (state m))
         else getNextPlayer (state m) (userId (last (allPlays m)))))"

definition match_inv :: "Match \<Rightarrow> bool" where
  "match_inv m = (roundsInOrder m \<and> winnersRecorded m \<and> turnsFollow m)"

definition table_inv :: "matches \<Rightarrow> bool" where
  "table_inv ms = (\<forall>mid m. ms mid = Some m \<longrightarrow> match_inv m)"

subsection \<open>Convex-backed service\<close>

text \<open>
  The plays of one round of one match, as the mutation's query selects them; the winner
  field of a round; the game-winner test of the mutation as a function of the two stored
  winners and the winner of the round that just closed.
\<close>

definition roundPlaysOf :: "db \<Rightarrow> nat \<Rightarrow> RoundKey \<Rightarrow> play_doc list" where
  "roundPlaysOf d i r = filter (\<lambda>p. match_id p = i \<and> play_round p = r) (plays_table d)"

definition round_winner :: "RoundKey \<Rightarrow> match_doc \<Rightarrow> TeamName option" where
  "round_winner r m =
     (case r of Round1 \<Rightarrow> round1_winner m | Round2 \<Rightarrow> round2_winner m | Round3 \<Rightarrow> round3_winner m)"

definition seriesWinner :: "TeamName option \<Rightarrow> TeamName option \<Rightarrow> TeamName \<Rightarrow> TeamName option" where
  "seriesWinner r1 r2 rw =
     (if (r1 = Some Team1 \<and> r2 = Some Team1) \<or>
         (r1 = Some Team1 \<and> r2 = Some Team2 \<and> rw = Team1) \<or>
         (r1 = Some Team2 \<and> r2 = Some Team1 \<and> rw = Team1)
      then Some Team1
      else if (r1 = Some Team2 \<and> r2 = Some Team2) \<or>
         (r1 = Some Team1 \<and> r2 = Some Team2 \<and> rw = Team2) \<or>
         (r1 = Some Team2 \<and> r2 = Some Team1 \<and> rw = Team2)
      then Some Team2
      else None)"

text \<open>
  The document and the database an accepted play leaves behind, without the exception
  branch: \<open>plays_create_eq\<close> and \<open>submitPlay_convex_eq\<close> below relate them to the
  mutation and the route.
\<close>

definition patchedDoc :: "match_doc \<Rightarrow> play_doc \<Rightarrow> play_doc list \<Rightarrow> match_doc" where
  "patchedDoc match args roundPlays =
     (let upd1 = match\<lparr>current_turn := plays_getNextPlayer match (user_id args)\<rparr>
      in if length roundPlays = 4 then
           (case plays_determineRoundWinner roundPlays match of
              None \<Rightarrow> upd1
            | Some w \<Rightarrow>
                (let upd2 = set_round_winner (play_round args) w upd1;
                     upd3 = (if play_round args = Round1 then upd2\<lparr>current_round := Round2\<rparr>
                             else if play_round args = Round2 then upd2\<lparr>current_round := Round3\<rparr>
                             else upd2)
                 in (case seriesWinner (round1_winner match) (round2_winner match) w of
                       None \<Rightarrow> upd3
                     | Some g \<Rightarrow> upd3\<lparr>game_winner := Some g, is_complete := True\<rparr>)))
         else upd1)"

definition newPlay :: "nat \<Rightarrow> string \<Rightarrow> match_doc \<Rightarrow> int \<Rightarrow> Card \<Rightarrow> play_doc" where
  "newPlay i uid m now c =
     \<lparr>match_id = i, user_id = uid, play_round = current_round m, play_timestamp = now,
      card_value = cardValue c, card_suit = cardSuit c\<rparr>"

definition acceptedDb :: "db \<Rightarrow> match_doc \<Rightarrow> play_doc \<Rightarrow> db" where
  "acceptedDb d m args =
     \<lparr>matches_table = (matches_table d)
         [match_id args := patchedDoc m args (roundPlaysOf d (match_id args) (play_round args) @ [args])],
      plays_table = plays_table d @ [args]\<rparr>"

definition docRoundsInOrder :: "db \<Rightarrow> nat \<Rightarrow> match_doc \<Rightarrow> bool" where
  "docRoundsInOrder d i m =
     (case current_round m of
        Round1 \<Rightarrow> length (roundPlaysOf d i Round1) < 4 \<and> roundPlaysOf d i Round2 = [] \<and>
                  roundPlaysOf d i Round3 = []
      | Round2 \<Rightarrow> length (roundPlaysOf d i Round1) = 4 \<and> length (roundPlaysOf d i Round2) < 4 \<and>
                  roundPlaysOf d i Round3 = []
      | Round3 \<Rightarrow> length (roundPlaysOf d i Round1) = 4 \<and> length (roundPlaysOf d i Round2) = 4)"

definition docWinnersRecorded :: "db \<Rightarrow> nat \<Rightarrow> match_doc \<Rightarrow> bool" where
  "docWinnersRecorded d i m =
     (\<forall>r. round_winner r m =
          (if 4 \<le> length (roundPlaysOf d i r)
           then plays_determineRoundWinner (take 4 (roundPlaysOf d i r)) m else None))"

definition docTurnsFollow :: "db \<Rightarrow> nat \<Rightarrow> match_doc \<Rightarrow> bool" where
  "docTurnsFollow d i m =
     ((\<forall>n. Suc n < length (plays_getByMatch d i) \<longrightarrow>
            user_id (plays_getByMatch d i ! Suc n) =
              plays_getNextPlayer m (user_id (plays_getByMatch d i ! n))) \<and>
      current_turn m =
        (if plays_getByMatch d i = [] then team1_player1 m
         else plays_getNextPlayer m (user_id (last (plays_getByMatch d i)))))"

definition doc_inv :: "db \<Rightarrow> nat \<Rightarrow> match_doc \<Rightarrow> bool" where
  "doc_inv d i m = (docRoundsInOrder d i m \<and> docWinnersRecorded d i m \<and> docTurnsFollow d i m)"

definition db_inv :: "db \<Rightarrow> bool" where
  "db_inv d =
     ((\<forall>p \<in> set (plays_table d). match_id p < length (matches_table d)) \<and>
      (\<forall>i < length (matches_table d). doc_inv d i (matches_table d ! i)))"

section \<open>Concrete matches\<close>

text \<open>
  Team1 is A and B, team2 is C and D. In \<open>sweep\<close> the match \<^verbatim>\<open>m\<close> is created and team1
  wins round1 and round2, each with A's 12; \<open>elevenPlays\<close> goes on with three plays
  into round3, \<open>twelvePlays\<close> with the play that closes round3, and \<open>overrun\<close> with a
  thirteenth play. \<open>sweepC\<close> to \<open>overrunC\<close> are the same requests to the Convex-backed
  service, where the match is document 0.
\<close>

definition teamAB :: Team where
  "teamAB = \<lparr>player1 = ''A'', player2 = ''B''\<rparr>"

definition teamCD :: Team where
  "teamCD = \<lparr>player1 = ''C'', player2 = ''D''\<rparr>"

definition sweep :: "event list" where
  "sweep =
     [Create ''m'' teamAB teamCD,
      Submit ''m'' ''A'' (Some 12) ''spades'' ''p1'' 1,
      Submit ''m'' ''C'' (Some 3) ''hearts'' ''p2'' 2,
      Submit ''m'' ''B'' (Some 7) ''diamonds'' ''p3'' 3,
      Submit ''m'' ''D'' (Some 2) ''clubs'' ''p4'' 4,
      Submit ''m'' ''A'' (Some 12) ''hearts'' ''p5'' 5,
      Submit ''m'' ''C'' (Some 4) ''spades'' ''p6'' 6,
      Submit ''m'' ''B'' (Some 6) ''clubs'' ''p7'' 7,
      Submit ''m'' ''D'' (Some 5) ''diamonds'' ''p8'' 8]"

definition elevenPlays :: "event list" where
  "elevenPlays = sweep @
     [Submit ''m'' ''A'' (Some 1) ''clubs'' ''p9'' 9,
      Submit ''m'' ''C'' (Some 13) ''clubs'' ''p10'' 10,
      Submit ''m'' ''B'' (Some 8) ''spades'' ''p11'' 11]"

definition twelvePlays :: "event list" where
  "twelvePlays = elevenPlays @ [Submit ''m'' ''D'' (Some 9) ''hearts'' ''p12'' 12]"

definition overrun :: "event list" where
  "overrun = twelvePlays @ [Submit ''m'' ''A'' (Some 2) ''diamonds'' ''p13'' 13]"

definition sweepC :: "convex_event list" where
  "sweepC =
     [CreateC teamAB teamCD,
      SubmitC 0 ''A'' (Some 12) ''spades'' 1,
      SubmitC 0 ''C'' (Some 3) ''hearts'' 2,
      SubmitC 0 ''B'' (Some 7) ''diamonds'' 3,
      SubmitC 0 ''D'' (Some 2) ''clubs'' 4,
      SubmitC 0 ''A'' (Some 12) ''hearts'' 5,
      SubmitC 0 ''C'' (Some 4) ''spades'' 6,
      SubmitC 0 ''B'' (Some 6) ''clubs'' 7,
      SubmitC 0 ''D'' (Some 5) ''diamonds'' 8]"

definition elevenPlaysC :: "convex_event list" where
  "elevenPlaysC = sweepC @
     [SubmitC 0 ''A'' (Some 1) ''clubs'' 9,
      SubmitC 0 ''C'' (Some 13) ''clubs'' 10,
      SubmitC 0 ''B'' (Some 8) ''spades'' 11]"

definition twelvePlaysC :: "convex_event list" where
  "twelvePlaysC = elevenPlaysC @ [SubmitC 0 ''D'' (Some 9) ''hearts'' 12]"

definition overrunC :: "convex_event list" where
  "overrunC = twelvePlaysC @ [SubmitC 0 ''A'' (Some 2) ''diamonds'' 13]"

text \<open>
  A round in which A and C both play a 10, as in-memory plays and as play documents, and
  the state and the document of a fresh match of the two teams.
\<close>

definition stateAB :: GameState where
  "stateAB = state (newMatch teamAB teamCD)"

definition docAB :: match_doc where
  "docAB = hd (matches_table (snd (createMatch_convex \<lparr>matches_table = [], plays_table = []\<rparr> teamAB teamCD)))"

definition tiedRound :: "Play list" where
  "tiedRound =
     [\<lparr>playId = ''p1'', userId = ''D'', timestamp = 1, playCard = \<lparr>cardValue = 2, cardSuit = ''clubs''\<rparr>\<rparr>,
      \<lparr>playId = ''p2'', userId = ''A'', timestamp = 2, playCard = \<lparr>cardValue = 10, cardSuit = ''spades''\<rparr>\<rparr>,
      \<lparr>playId = ''p3'', userId = ''C'', timestamp = 3, playCard = \<lparr>cardValue = 10, cardSuit = ''hearts''\<rparr>\<rparr>,
      \<lparr>playId = ''p4'', userId = ''B'', timestamp = 4, playCard = \<lparr>cardValue = 7, cardSuit = ''diamonds''\<rparr>\<rparr>]"

definition tiedRoundDocs :: "play_doc list" where
  "tiedRoundDocs =
     [\<lparr>match_id = 0, user_id = ''D'', play_round = Round1, play_timestamp = 1, card_value = 2, card_suit = ''clubs''\<rparr>,
      \<lparr>match_id = 0, user_id = ''A'', play_round = Round1, play_timestamp = 2, card_value = 10, card_suit = ''spades''\<rparr>,
      \<lparr>match_id = 0, user_id = ''C'', play_round = Round1, play_timestamp = 3, card_value = 10, card_suit = ''hearts''\<rparr>,
      \<lparr>match_id = 0, user_id = ''B'', play_round = Round1, play_timestamp = 4, card_value = 7, card_suit = ''diamonds''\<rparr>]"

text \<open>
  The twelfth play of \<open>overrun\<close> as it is recorded, and the twelfth play of \<open>overrunC\<close>
  as the argument of the plays mutation.
\<close>

definition twelfthPlayRec :: Play where
  "twelfthPlayRec =
     \<lparr>playId = ''p12'', userId = ''D'', timestamp = 12,
      playCard = \<lparr>cardValue = 9, cardSuit = ''hearts''\<rparr>\<rparr>"

definition twelfthPlayDoc :: play_doc where
  "twelfthPlayDoc =
     \<lparr>match_id = 0, user_id = ''D'', play_round = Round3, play_timestamp = 12,
      card_value = 9, card_suit = ''hearts''\<rparr>"

text \<open>
  The ninth play request after \<open>sweep\<close> and after \<open>sweepC\<close>: A, whose turn it is,
  plays the ace of clubs on the match that team1 has already won twice.
\<close>

definition ninthPlay :: "response \<times> matches" where
  "ninthPlay = submitPlay (run sweep) ''m'' ''A'' (Some 1) ''clubs'' ''p9'' 9"

definition ninthPlayC :: "convex_response \<times> db" where
  "ninthPlayC = submitPlay_convex (convex_run sweepC) 0 ''A'' (Some 1) ''clubs'' 9"

text \<open>A match whose team1 seats the same identity twice.\<close>

definition teamAA :: Team where
  "teamAA = \<lparr>player1 = ''A'', player2 = ''A''\<rparr>"

definition stateAA :: GameState where
  "stateAA = state (newMatch teamAA teamCD)"

definition docAA :: match_doc where
  "docAA = hd (matches_table (snd (createMatch_convex \<lparr>matches_table = [], plays_table = []\<rparr> teamAA teamCD)))"

section \<open>Basic facts: in-memory service\<close>

lemma reduce_Some: "plays \<noteq> [] \<Longrightarrow> \<exists>w. reduce f plays = Some w"
  by (cases plays) auto

lemma determineRoundWinner_Some:
  "plays \<noteq> [] \<Longrightarrow> \<exists>w. determineRoundWinner plays st = Some w"
  by (cases plays) (auto simp: determineRoundWinner_def)

lemma determineRoundWinner_team1:
  "team1 st' = team1 st \<Longrightarrow> determineRoundWinner plays st' = determineRoundWinner plays st"
  by (cases "reduce higher plays") (simp_all add: determineRoundWinner_def)

lemma determineRoundWinner_currentTurn:
  "determineRoundWinner plays (st\<lparr>currentTurn := x\<rparr>) = determineRoundWinner plays st"
  by (rule determineRoundWinner_team1) simp

lemma countWins_Some: "\<exists>r. countWins st rss acc = Some r"
proof (induction rss arbitrary: acc)
  case Nil
  then show ?case by simp
next
  case (Cons ps rss)
  obtain a b where acc: "acc = (a, b)" by (cases acc)
  show ?case
  proof (cases "length ps = 4")
    case True
    then have "ps \<noteq> []" by auto
    then obtain w where "determineRoundWinner ps st = Some w"
      using determineRoundWinner_Some by blast
    with True acc Cons.IH show ?thesis by simp
  next
    case False
    with acc Cons.IH show ?thesis by simp
  qed
qed

lemma determineGameWinner_Some: "\<exists>g. determineGameWinner rs st = Some g"
proof -
  obtain r where "countWins st [rs Round1, rs Round2, rs Round3] (0, 0) = Some r"
    using countWins_Some by blast
  then show ?thesis by (cases r) (simp add: determineGameWinner_def)
qed

lemma submitPlay_accepted:
  assumes "ms mid = Some m" "CardSchema_parse cv s = Some c" "currentTurn (state m) = uid"
  shows "submitPlay ms mid uid cv s pid now =
           (let m' = acceptedMatch m \<lparr>playId = pid, userId = uid, timestamp = now, playCard = c\<rparr>
            in (Accepted m', ms(mid \<mapsto> m')))"
proof -
  let ?play = "\<lparr>playId = pid, userId = uid, timestamp = now, playCard = c\<rparr>"
  let ?cur = "currentRound (state m)"
  let ?ps = "rounds m ?cur @ [?play]"
  let ?st1 = "(state m)\<lparr>currentTurn := getNextPlayer (state m) uid\<rparr>"
  obtain w where w: "determineRoundWinner ?ps ?st1 = Some w"
    using determineRoundWinner_Some[of ?ps ?st1] by auto
  let ?st3 = "?st1\<lparr>roundWinners := (roundWinners ?st1)(?cur \<mapsto> w), currentRound := nextRound ?cur\<rparr>"
  obtain g where g: "determineGameWinner ((rounds m)(?cur := ?ps)) ?st3 = Some g"
    using determineGameWinner_Some by blast
  show ?thesis
    using assms w g
    by (cases g) (simp_all add: submitPlay_def acceptedMatch_def Let_def)
qed

lemma rounds_acceptedMatch:
  "rounds (acceptedMatch m p) =
     (rounds m)(currentRound (state m) := rounds m (currentRound (state m)) @ [p])"
  by (simp add: acceptedMatch_def Let_def split: option.splits)

lemma team1_acceptedMatch: "team1 (state (acceptedMatch m p)) = team1 (state m)"
  by (simp add: acceptedMatch_def Let_def split: option.splits)

lemma team2_acceptedMatch: "team2 (state (acceptedMatch m p)) = team2 (state m)"
  by (simp add: acceptedMatch_def Let_def split: option.splits)

lemma currentTurn_acceptedMatch:
  "currentTurn (state (acceptedMatch m p)) = getNextPlayer (state m) (userId p)"
  by (simp add: acceptedMatch_def Let_def split: option.splits)

lemma currentRound_acceptedMatch:
  "currentRound (state (acceptedMatch m p)) =
     (if length (rounds m (currentRound (state m))) = 3
      then nextRound (currentRound (state m)) else currentRound (state m))"
  by (simp add: acceptedMatch_def Let_def split: option.splits)

lemma roundWinners_acceptedMatch:
  "roundWinners (state (acceptedMatch m p)) =
     (if length (rounds m (currentRound (state m))) = 3
      then (roundWinners (state m))(currentRound (state m) :=
             determineRoundWinner (rounds m (currentRound (state m)) @ [p]) (state m))
      else roundWinners (state m))"
  by (simp add: acceptedMatch_def Let_def determineRoundWinner_currentTurn split: option.splits)

lemma getNextPlayer_teams:
  "team1 st' = team1 st \<Longrightarrow> team2 st' = team2 st \<Longrightarrow> getNextPlayer st' = getNextPlayer st"
  by (rule ext) (simp add: getNextPlayer_def)

lemma roundsInOrder_acceptedMatch:
  assumes "roundsInOrder m"
  shows "roundsInOrder (acceptedMatch m p)"
proof (cases "currentRound (state m)")
  case Round1
  with assms show ?thesis
    by (auto simp: roundsInOrder_def rounds_acceptedMatch currentRound_acceptedMatch nextRound_def)
next
  case Round2
  with assms show ?thesis
    by (auto simp: roundsInOrder_def rounds_acceptedMatch currentRound_acceptedMatch nextRound_def)
next
  case Round3
  with assms show ?thesis
    by (auto simp: roundsInOrder_def rounds_acceptedMatch currentRound_acceptedMatch nextRound_def)
qed

lemma winnersRecorded_acceptedMatch:
  assumes "roundsInOrder m" "winnersRecorded m"
  shows "winnersRecorded (acceptedMatch m p)"
  unfolding winnersRecorded_def
proof
  fix r
  let ?cur = "currentRound (state m)"
  have t: "team1 (state (acceptedMatch m p)) = team1 (state m)"
    by (rule team1_acceptedMatch)
  have old: "roundWinners (state m) r =
          (if 4 \<le> length (rounds m r)
           then determineRoundWinner (take 4 (rounds m r)) (state m) else None)"
    using assms(2) by (simp add: winnersRecorded_def)
  show "roundWinners (state (acceptedMatch m p)) r =
          (if 4 \<le> length (rounds (acceptedMatch m p) r)
           then determineRoundWinner (take 4 (rounds (acceptedMatch m p) r)) (state (acceptedMatch m p))
           else None)"
  proof (cases "r = ?cur")
    case False
    then show ?thesis
      using old by (simp add: roundWinners_acceptedMatch rounds_acceptedMatch
          determineRoundWinner_team1[OF t])
  next
    case True
    show ?thesis
    proof (cases "length (rounds m ?cur) < 4")
      case True
      with \<open>r = ?cur\<close> old show ?thesis
        by (auto simp: roundWinners_acceptedMatch rounds_acceptedMatch
          determineRoundWinner_team1[OF t])
    next
      case False
      with \<open>r = ?cur\<close> old show ?thesis
        by (auto simp: roundWinners_acceptedMatch rounds_acceptedMatch
          determineRoundWinner_team1[OF t])
    qed
  qed
qed

lemma allPlays_acceptedMatch:
  assumes "roundsInOrder m"
  shows "allPlays (acceptedMatch m p) = allPlays m @ [p]"
proof (cases "currentRound (state m)")
  case Round1
  with assms show ?thesis
    by (simp add: roundsInOrder_def allPlays_def rounds_acceptedMatch)
next
  case Round2
  with assms show ?thesis
    by (simp add: roundsInOrder_def allPlays_def rounds_acceptedMatch)
next
  case Round3
  with assms show ?thesis
    by (simp add: roundsInOrder_def allPlays_def rounds_acceptedMatch)
qed

lemma turnsFollow_acceptedMatch:
  assumes ord: "roundsInOrder m" and tf: "turnsFollow m" and p: "userId p = currentTurn (state m)"
  shows "turnsFollow (acceptedMatch m p)"
proof -
  let ?m' = "acceptedMatch m p"
  have nxt: "getNextPlayer (state ?m') = getNextPlayer (state m)"
    by (rule getNextPlayer_teams) (simp_all add: team1_acceptedMatch team2_acceptedMatch)
  have ap: "allPlays ?m' = allPlays m @ [p]"
    using ord by (rule allPlays_acceptedMatch)
  have chain: "userId ((allPlays m @ [p]) ! Suc n) =
                 getNextPlayer (state m) (userId ((allPlays m @ [p]) ! n))"
    if n: "Suc n < length (allPlays m @ [p])" for n
  proof (cases "Suc n < length (allPlays m)")
    case True
    then show ?thesis using tf by (simp add: turnsFollow_def nth_append)
  next
    case False
    with n have len: "Suc n = length (allPlays m)" by simp
    then have ne: "allPlays m \<noteq> []" by auto
    have "allPlays m ! n = last (allPlays m)"
      using len ne by (simp add: last_conv_nth flip: len)
    moreover have "currentTurn (state m) = getNextPlayer (state m) (userId (last (allPlays m)))"
      using tf ne by (simp add: turnsFollow_def)
    ultimately show ?thesis using len p by (simp add: nth_append)
  qed
  show ?thesis
    unfolding turnsFollow_def nxt ap
    using chain by (simp add: currentTurn_acceptedMatch)
qed

lemma match_inv_acceptedMatch:
  "match_inv m \<Longrightarrow> userId p = currentTurn (state m) \<Longrightarrow> match_inv (acceptedMatch m p)"
  by (simp add: match_inv_def roundsInOrder_acceptedMatch winnersRecorded_acceptedMatch
      turnsFollow_acceptedMatch)

lemma match_inv_newMatch: "match_inv (newMatch t1 t2)"
  by (simp add: match_inv_def roundsInOrder_def winnersRecorded_def turnsFollow_def
      allPlays_def newMatch_def)

lemma submitPlay_eq:
  "submitPlay ms mid uid cv s pid now =
     (case ms mid of
        None \<Rightarrow> (MatchNotFound, ms)
      | Some m \<Rightarrow>
          (case CardSchema_parse cv s of
             None \<Rightarrow> (ZodError, ms)
           | Some c \<Rightarrow>
               if currentTurn (state m) \<noteq> uid then (NotYourTurn, ms)
               else (Accepted (acceptedMatch m \<lparr>playId = pid, userId = uid, timestamp = now, playCard = c\<rparr>),
                     ms(mid \<mapsto> acceptedMatch m \<lparr>playId = pid, userId = uid, timestamp = now, playCard = c\<rparr>))))"
proof (cases "ms mid")
  case None
  then show ?thesis by (simp add: submitPlay_def)
next
  case (Some m)
  show ?thesis
  proof (cases "CardSchema_parse cv s")
    case None
    with Some show ?thesis by (simp add: submitPlay_def)
  next
    case c: (Some c)
    show ?thesis
    proof (cases "currentTurn (state m) = uid")
      case True
      from submitPlay_accepted[of ms mid m cv s c uid pid now] Some c True show ?thesis
        by (simp add: Let_def)
    next
      case False
      with Some c show ?thesis by (simp add: submitPlay_def)
    qed
  qed
qed

lemma table_inv_step: "table_inv ms \<Longrightarrow> table_inv (step ms ev)"
proof (cases ev)
  case (Create mid t1 t2)
  assume "table_inv ms"
  with Create show ?thesis
    by (simp add: table_inv_def createMatch_def match_inv_newMatch)
next
  case (Submit mid uid cv s pid now)
  assume "table_inv ms"
  with Submit show ?thesis
    by (auto simp: table_inv_def submitPlay_eq match_inv_acceptedMatch
        split: option.splits if_splits)
qed

lemma table_inv_foldl: "table_inv ms \<Longrightarrow> table_inv (foldl step ms evs)"
  by (induction evs arbitrary: ms) (simp_all add: table_inv_step)

lemma table_inv_run: "table_inv (run evs)"
  unfolding run_def by (rule table_inv_foldl) (simp add: table_inv_def)

lemma match_inv_run: "run evs mid = Some m \<Longrightarrow> match_inv m"
  using table_inv_run[of evs] by (simp add: table_inv_def)

lemma foldl_first_max:
  fixes v :: "'a \<Rightarrow> int"
  assumes f: "\<And>h c. f h c = (if v c > v h then c else h)"
  shows "\<exists>i < length (x # xs).
           foldl f x xs = (x # xs) ! i \<and>
           (\<forall>j < length (x # xs). v ((x # xs) ! j) \<le> v ((x # xs) ! i)) \<and>
           (\<forall>j < i. v ((x # xs) ! j) < v ((x # xs) ! i))"
proof (induction xs rule: rev_induct)
  case Nil
  show ?case by simp
next
  case (snoc y ys)
  then obtain i where i: "i < length (x # ys)"
    and fi: "foldl f x ys = (x # ys) ! i"
    and mx: "\<forall>j < length (x # ys). v ((x # ys) ! j) \<le> v ((x # ys) ! i)"
    and fst: "\<forall>j < i. v ((x # ys) ! j) < v ((x # ys) ! i)"
    by blast
  let ?zs = "x # ys @ [y]"
  have old: "?zs ! j = (x # ys) ! j" if "j < length (x # ys)" for j
    using that nth_append[of "x # ys" "[y]" j] by simp
  have new: "?zs ! length (x # ys) = y"
    using nth_append_length[of "x # ys" y "[]"] by simp
  show ?case
  proof (cases "v y > v ((x # ys) ! i)")
    case True
    have "foldl f x (ys @ [y]) = ?zs ! length (x # ys)"
      using True fi new by (simp add: f)
    moreover have "\<forall>j < length ?zs. v (?zs ! j) \<le> v (?zs ! length (x # ys))"
    proof (intro allI impI)
      fix j assume "j < length ?zs"
      then consider "j < length (x # ys)" | "j = length (x # ys)" by fastforce
      then show "v (?zs ! j) \<le> v (?zs ! length (x # ys))"
      proof cases
        case 1
        then have "v (?zs ! j) \<le> v ((x # ys) ! i)" using mx old by simp
        then show ?thesis using True new by simp
      next
        case 2
        then show ?thesis by simp
      qed
    qed
    moreover have "\<forall>j < length (x # ys). v (?zs ! j) < v (?zs ! length (x # ys))"
    proof (intro allI impI)
      fix j assume j: "j < length (x # ys)"
      then have "v (?zs ! j) \<le> v ((x # ys) ! i)" using mx old by simp
      then show "v (?zs ! j) < v (?zs ! length (x # ys))" using True new by simp
    qed
    ultimately show ?thesis
      by (intro exI[of _ "length (x # ys)"]) simp
  next
    case False
    have "foldl f x (ys @ [y]) = ?zs ! i"
      using False fi old[OF i] by (simp add: f)
    moreover have "\<forall>j < length ?zs. v (?zs ! j) \<le> v (?zs ! i)"
    proof (intro allI impI)
      fix j assume "j < length ?zs"
      then consider "j < length (x # ys)" | "j = length (x # ys)" by fastforce
      then show "v (?zs ! j) \<le> v (?zs ! i)"
      proof cases
        case 1
        then show ?thesis using mx old[OF 1] old[OF i] by simp
      next
        case 2
        then show ?thesis using False new old[OF i] by simp
      qed
    qed
    moreover have "\<forall>j < i. v (?zs ! j) < v (?zs ! i)"
    proof (intro allI impI)
      fix j assume j: "j < i"
      then have "j < length (x # ys)" using i by simp
      then show "v (?zs ! j) < v (?zs ! i)" using fst j old old[OF i] by simp
    qed
    ultimately show ?thesis
      using i by (intro exI[of _ i]) simp
  qed
qed

lemma reduce_first_max:
  fixes v :: "'a \<Rightarrow> int"
  assumes f: "\<And>h c. f h c = (if v c > v h then c else h)" and ne: "plays \<noteq> []"
  shows "\<exists>i < length plays.
           reduce f plays = Some (plays ! i) \<and>
           (\<forall>j < length plays. v (plays ! j) \<le> v (plays ! i)) \<and>
           (\<forall>j < i. v (plays ! j) < v (plays ! i))"
proof -
  from ne obtain x xs where p: "plays = x # xs" by (cases plays) auto
  show ?thesis
    unfolding p using foldl_first_max[of f v x xs, OF f] by simp
qed

lemma countWins_team1:
  assumes t: "team1 st' = team1 st"
  shows "countWins st' rss acc = countWins st rss acc"
proof (induction rss arbitrary: acc)
  case Nil
  show ?case by simp
next
  case (Cons ps rss)
  obtain a b where acc: "acc = (a, b)" by (cases acc)
  show ?case
    unfolding acc
    by (cases "determineRoundWinner ps st")
       (simp_all add: determineRoundWinner_team1[OF t] Cons.IH)
qed

lemma determineGameWinner_team1:
  assumes t: "team1 st' = team1 st"
  shows "determineGameWinner rs st' = determineGameWinner rs st"
  unfolding determineGameWinner_def countWins_team1[OF t] by (rule refl)

lemma winner_acceptedMatch:
  "winner (state (acceptedMatch m p)) =
     (if length (rounds m (currentRound (state m))) = 3
      then (case determineGameWinner
                   ((rounds m)(currentRound (state m) := rounds m (currentRound (state m)) @ [p]))
                   (state m) of
              Some (Some g) \<Rightarrow> Some g
            | _ \<Rightarrow> winner (state m))
      else winner (state m))"
proof -
  have "determineGameWinner rs
          ((state m)\<lparr>currentTurn := t, roundWinners := w, currentRound := c\<rparr>) =
        determineGameWinner rs (state m)" for rs t w c
    by (rule determineGameWinner_team1) simp
  then show ?thesis
    by (simp add: acceptedMatch_def Let_def split: option.splits)
qed

lemma gameComplete_acceptedMatch:
  "gameComplete (state (acceptedMatch m p)) =
     (if length (rounds m (currentRound (state m))) = 3
      then (case determineGameWinner
                   ((rounds m)(currentRound (state m) := rounds m (currentRound (state m)) @ [p]))
                   (state m) of
              Some (Some g) \<Rightarrow> Some True
            | _ \<Rightarrow> gameComplete (state m))
      else gameComplete (state m))"
proof -
  have "determineGameWinner rs
          ((state m)\<lparr>currentTurn := t, roundWinners := w, currentRound := c\<rparr>) =
        determineGameWinner rs (state m)" for rs t w c
    by (rule determineGameWinner_team1) simp
  then show ?thesis
    by (simp add: acceptedMatch_def Let_def split: option.splits)
qed

lemma determineGameWinner_full:
  assumes "length (rs Round1) = 4" "length (rs Round2) = 4" "length (rs Round3) = 4"
  shows "\<exists>g. determineGameWinner rs st = Some (Some g) \<and>
           2 \<le> length (filter (\<lambda>r. determineRoundWinner (rs r) st = Some g) [Round1, Round2, Round3])"
proof -
  have ne: "rs Round1 \<noteq> []" "rs Round2 \<noteq> []" "rs Round3 \<noteq> []"
    using assms by auto
  obtain w1 w2 w3 where w: "determineRoundWinner (rs Round1) st = Some w1"
    "determineRoundWinner (rs Round2) st = Some w2" "determineRoundWinner (rs Round3) st = Some w3"
    using ne determineRoundWinner_Some by meson
  show ?thesis
    using assms w
    by (cases w1; cases w2; cases w3) (simp_all add: determineGameWinner_def)
qed

lemma winner_acceptedMatch_round3:
  assumes "roundsInOrder m" "currentRound (state m) = Round3" "length (rounds m Round3) = 3"
  shows "(\<exists>g. winner (state (acceptedMatch m p)) = Some g) \<and>
         gameComplete (state (acceptedMatch m p)) = Some True"
proof -
  let ?rs = "(rounds m)(Round3 := rounds m Round3 @ [p])"
  have l: "length (?rs Round1) = 4" "length (?rs Round2) = 4" "length (?rs Round3) = 4"
    using assms by (simp_all add: roundsInOrder_def)
  obtain g where "determineGameWinner ?rs (state m) = Some (Some g)"
    using determineGameWinner_full[OF l] by blast
  then show ?thesis
    using assms(2,3) by (simp add: winner_acceptedMatch gameComplete_acceptedMatch)
qed

section \<open>Basic facts: Convex-backed service\<close>

lemma plays_determineRoundWinner_Some:
  "plays \<noteq> [] \<Longrightarrow> \<exists>w. plays_determineRoundWinner plays m = Some w"
  by (cases plays) (auto simp: plays_determineRoundWinner_def)

lemma plays_create_eq:
  assumes "db_get d (match_id args) = Some m" "current_turn m = user_id args"
  shows "plays_create d args = Inr (length (plays_table d), acceptedDb d m args)"
proof -
  let ?rp = "roundPlaysOf d (match_id args) (play_round args) @ [args]"
  obtain w where w: "plays_determineRoundWinner ?rp m = Some w"
    using plays_determineRoundWinner_Some[of ?rp m] by auto
  show ?thesis
    using assms w
    by (simp add: plays_create_def acceptedDb_def patchedDoc_def roundPlaysOf_def Let_def
        seriesWinner_def)
qed

lemma db_get_acceptedDb:
  "db_get d (match_id args) = Some m \<Longrightarrow>
   db_get (acceptedDb d m args) (match_id args) =
     Some (patchedDoc m args (roundPlaysOf d (match_id args) (play_round args) @ [args]))"
  by (auto simp: db_get_def acceptedDb_def split: if_splits)

lemma submitPlay_convex_eq:
  "submitPlay_convex d i uid cv s now =
     (case db_get d i of
        None \<Rightarrow> (C_MatchNotFound, d)
      | Some m \<Rightarrow>
          (case CardSchema_parse cv s of
             None \<Rightarrow> (C_ZodError, d)
           | Some c \<Rightarrow>
               if current_turn m \<noteq> uid then (C_NotYourTurn, d)
               else (C_Accepted
                       (patchedDoc m (newPlay i uid m now c)
                          (roundPlaysOf d i (current_round m) @ [newPlay i uid m now c]))
                       (plays_getByMatch (acceptedDb d m (newPlay i uid m now c)) i),
                     acceptedDb d m (newPlay i uid m now c))))"
proof (cases "db_get d i")
  case None
  then show ?thesis by (simp add: submitPlay_convex_def)
next
  case (Some m)
  show ?thesis
  proof (cases "CardSchema_parse cv s")
    case None
    with Some show ?thesis by (simp add: submitPlay_convex_def)
  next
    case c: (Some c)
    show ?thesis
    proof (cases "current_turn m = uid")
      case False
      with Some c show ?thesis by (simp add: submitPlay_convex_def)
    next
      case True
      let ?args = "newPlay i uid m now c"
      have a: "match_id ?args = i" "user_id ?args = uid" "play_round ?args = current_round m"
        by (simp_all add: newPlay_def)
      have pc: "plays_create d ?args = Inr (length (plays_table d), acceptedDb d m ?args)"
        using plays_create_eq[of d ?args m] Some True a by simp
      have g: "db_get (acceptedDb d m ?args) i =
                 Some (patchedDoc m ?args (roundPlaysOf d i (current_round m) @ [?args]))"
        using db_get_acceptedDb[of d ?args m] Some a by simp
      show ?thesis
        using Some c True pc g
        by (simp add: submitPlay_convex_def newPlay_def[symmetric])
    qed
  qed
qed

lemma plays_determineRoundWinner_teams:
  "team1_player1 m' = team1_player1 m \<Longrightarrow> team1_player2 m' = team1_player2 m \<Longrightarrow>
   plays_determineRoundWinner ps m' = plays_determineRoundWinner ps m"
  by (cases "reduce plays_higher ps") (simp_all add: plays_determineRoundWinner_def)

lemma plays_getNextPlayer_teams:
  "team1_player1 m' = team1_player1 m \<Longrightarrow> team1_player2 m' = team1_player2 m \<Longrightarrow>
   team2_player1 m' = team2_player1 m \<Longrightarrow> team2_player2 m' = team2_player2 m \<Longrightarrow>
   plays_getNextPlayer m' = plays_getNextPlayer m"
  by (rule ext) (simp add: plays_getNextPlayer_def)

lemma teams_set_round_winner:
  "team1_player1 (set_round_winner r w m) = team1_player1 m"
  "team1_player2 (set_round_winner r w m) = team1_player2 m"
  "team2_player1 (set_round_winner r w m) = team2_player1 m"
  "team2_player2 (set_round_winner r w m) = team2_player2 m"
  "current_turn (set_round_winner r w m) = current_turn m"
  "current_round (set_round_winner r w m) = current_round m"
  "game_winner (set_round_winner r w m) = game_winner m"
  "is_complete (set_round_winner r w m) = is_complete m"
  by (cases r; simp add: set_round_winner_def)+

lemma round_winner_set_round_winner:
  "round_winner r (set_round_winner r' w m) = (if r = r' then Some w else round_winner r m)"
  by (cases r; cases r'; simp add: round_winner_def set_round_winner_def)

lemma round_winner_updates:
  "round_winner r (m\<lparr>current_turn := t\<rparr>) = round_winner r m"
  "round_winner r (m\<lparr>current_round := c\<rparr>) = round_winner r m"
  "round_winner r (m\<lparr>game_winner := g\<rparr>) = round_winner r m"
  "round_winner r (m\<lparr>is_complete := b\<rparr>) = round_winner r m"
  by (cases r; simp add: round_winner_def)+

lemma teams_patchedDoc:
  "team1_player1 (patchedDoc m args rp) = team1_player1 m"
  "team1_player2 (patchedDoc m args rp) = team1_player2 m"
  "team2_player1 (patchedDoc m args rp) = team2_player1 m"
  "team2_player2 (patchedDoc m args rp) = team2_player2 m"
  by (simp_all add: patchedDoc_def Let_def teams_set_round_winner split: option.splits)

lemma current_turn_patchedDoc:
  "current_turn (patchedDoc m args rp) = plays_getNextPlayer m (user_id args)"
  by (simp add: patchedDoc_def Let_def teams_set_round_winner split: option.splits)

lemma current_round_patchedDoc:
  "play_round args = current_round m \<Longrightarrow> rp \<noteq> [] \<Longrightarrow>
   current_round (patchedDoc m args rp) =
     (if length rp = 4 then nextRound (current_round m) else current_round m)"
  using plays_determineRoundWinner_Some[of rp m]
  by (auto simp: patchedDoc_def Let_def teams_set_round_winner nextRound_def split: option.splits)

lemma round_winner_patchedDoc:
  "round_winner r (patchedDoc m args rp) =
     (if length rp = 4 \<and> r = play_round args
      then plays_determineRoundWinner rp m else round_winner r m)"
proof (cases "length rp = 4")
  case False
  then show ?thesis by (simp add: patchedDoc_def round_winner_updates)
next
  case True
  then have "rp \<noteq> []" by auto
  then obtain w where "plays_determineRoundWinner rp m = Some w"
    using plays_determineRoundWinner_Some by blast
  with True show ?thesis
    by (simp add: patchedDoc_def Let_def round_winner_updates round_winner_set_round_winner
        split: option.splits)
qed

lemma roundPlaysOf_acceptedDb:
  "roundPlaysOf (acceptedDb d m args) j r =
     (if j = match_id args \<and> r = play_round args
      then roundPlaysOf d j r @ [args] else roundPlaysOf d j r)"
  by (auto simp: roundPlaysOf_def acceptedDb_def)

lemma plays_getByMatch_acceptedDb:
  "plays_getByMatch (acceptedDb d m args) j =
     (if j = match_id args then plays_getByMatch d j @ [args] else plays_getByMatch d j)"
  by (auto simp: plays_getByMatch_def acceptedDb_def)

lemma length_matches_acceptedDb:
  "length (matches_table (acceptedDb d m args)) = length (matches_table d)"
  by (simp add: acceptedDb_def)

lemma nth_matches_acceptedDb:
  "j < length (matches_table d) \<Longrightarrow>
   matches_table (acceptedDb d m args) ! j =
     (if j = match_id args
      then patchedDoc m args (roundPlaysOf d (match_id args) (play_round args) @ [args])
      else matches_table d ! j)"
  by (simp add: acceptedDb_def nth_list_update)

lemma doc_inv_other:
  "j \<noteq> match_id args \<Longrightarrow> doc_inv (acceptedDb d m args) j m' = doc_inv d j m'"
  by (simp add: doc_inv_def docRoundsInOrder_def docWinnersRecorded_def docTurnsFollow_def
      roundPlaysOf_acceptedDb plays_getByMatch_acceptedDb cong: RoundKey.case_cong)

lemma docRoundsInOrder_accepted:
  assumes "docRoundsInOrder d (match_id args) m" "play_round args = current_round m"
  shows "docRoundsInOrder (acceptedDb d m args) (match_id args)
           (patchedDoc m args (roundPlaysOf d (match_id args) (play_round args) @ [args]))"
proof (cases "current_round m")
  case Round1
  with assms show ?thesis
    by (auto simp: docRoundsInOrder_def roundPlaysOf_acceptedDb current_round_patchedDoc nextRound_def)
next
  case Round2
  with assms show ?thesis
    by (auto simp: docRoundsInOrder_def roundPlaysOf_acceptedDb current_round_patchedDoc nextRound_def)
next
  case Round3
  with assms show ?thesis
    by (auto simp: docRoundsInOrder_def roundPlaysOf_acceptedDb current_round_patchedDoc nextRound_def)
qed

lemma docWinnersRecorded_accepted:
  assumes "docRoundsInOrder d (match_id args) m" "docWinnersRecorded d (match_id args) m"
    and "play_round args = current_round m"
  shows "docWinnersRecorded (acceptedDb d m args) (match_id args)
           (patchedDoc m args (roundPlaysOf d (match_id args) (play_round args) @ [args]))"
  unfolding docWinnersRecorded_def
proof
  fix r
  let ?i = "match_id args"
  let ?rp = "roundPlaysOf d ?i (play_round args) @ [args]"
  let ?m' = "patchedDoc m args ?rp"
  have t: "plays_determineRoundWinner ps ?m' = plays_determineRoundWinner ps m" for ps
    by (rule plays_determineRoundWinner_teams) (simp_all add: teams_patchedDoc)
  have old: "round_winner r m =
          (if 4 \<le> length (roundPlaysOf d ?i r)
           then plays_determineRoundWinner (take 4 (roundPlaysOf d ?i r)) m else None)"
    using assms(2) by (simp add: docWinnersRecorded_def)
  show "round_winner r ?m' =
          (if 4 \<le> length (roundPlaysOf (acceptedDb d m args) ?i r)
           then plays_determineRoundWinner (take 4 (roundPlaysOf (acceptedDb d m args) ?i r)) ?m'
           else None)"
  proof (cases "r = play_round args")
    case False
    then show ?thesis
      using old by (simp add: round_winner_patchedDoc roundPlaysOf_acceptedDb t)
  next
    case True
    show ?thesis
    proof (cases "length (roundPlaysOf d ?i (play_round args)) < 4")
      case True
      with \<open>r = play_round args\<close> old show ?thesis
        by (auto simp: round_winner_patchedDoc roundPlaysOf_acceptedDb t)
    next
      case False
      with \<open>r = play_round args\<close> old show ?thesis
        by (auto simp: round_winner_patchedDoc roundPlaysOf_acceptedDb t)
    qed
  qed
qed

lemma docTurnsFollow_accepted:
  assumes tf: "docTurnsFollow d (match_id args) m" and p: "user_id args = current_turn m"
  shows "docTurnsFollow (acceptedDb d m args) (match_id args)
           (patchedDoc m args (roundPlaysOf d (match_id args) (play_round args) @ [args]))"
proof -
  let ?i = "match_id args"
  let ?m' = "patchedDoc m args (roundPlaysOf d ?i (play_round args) @ [args])"
  let ?ps = "plays_getByMatch d ?i"
  have nxt: "plays_getNextPlayer ?m' = plays_getNextPlayer m"
    by (rule plays_getNextPlayer_teams) (simp_all add: teams_patchedDoc)
  have ap: "plays_getByMatch (acceptedDb d m args) ?i = ?ps @ [args]"
    by (simp add: plays_getByMatch_acceptedDb)
  have chain: "user_id ((?ps @ [args]) ! Suc n) =
                 plays_getNextPlayer m (user_id ((?ps @ [args]) ! n))"
    if n: "Suc n < length (?ps @ [args])" for n
  proof (cases "Suc n < length ?ps")
    case True
    then show ?thesis using tf by (simp add: docTurnsFollow_def nth_append)
  next
    case False
    with n have len: "Suc n = length ?ps" by simp
    then have ne: "?ps \<noteq> []" by auto
    have "?ps ! n = last ?ps"
      using len ne by (simp add: last_conv_nth flip: len)
    moreover have "current_turn m = plays_getNextPlayer m (user_id (last ?ps))"
      using tf ne by (simp add: docTurnsFollow_def)
    ultimately show ?thesis using len p by (simp add: nth_append)
  qed
  show ?thesis
    unfolding docTurnsFollow_def nxt ap
    using chain by (simp add: current_turn_patchedDoc teams_patchedDoc)
qed

lemma db_inv_acceptedDb:
  assumes inv: "db_inv d" and i: "match_id args < length (matches_table d)"
    and m: "m = matches_table d ! match_id args"
    and r: "play_round args = current_round m" and u: "user_id args = current_turn m"
  shows "db_inv (acceptedDb d m args)"
proof -
  let ?d' = "acceptedDb d m args"
  have refs: "\<forall>p \<in> set (plays_table ?d'). match_id p < length (matches_table ?d')"
    using inv i by (auto simp: db_inv_def acceptedDb_def)
  have docs: "doc_inv ?d' j (matches_table ?d' ! j)" if j: "j < length (matches_table d)" for j
  proof (cases "j = match_id args")
    case False
    then show ?thesis
      using inv j by (simp add: nth_matches_acceptedDb doc_inv_other db_inv_def)
  next
    case True
    have old: "doc_inv d (match_id args) m"
      using inv i m by (simp add: db_inv_def)
    then have o: "docRoundsInOrder d (match_id args) m" "docWinnersRecorded d (match_id args) m"
      "docTurnsFollow d (match_id args) m"
      by (simp_all add: doc_inv_def)
    have "doc_inv ?d' (match_id args)
            (patchedDoc m args (roundPlaysOf d (match_id args) (play_round args) @ [args]))"
      unfolding doc_inv_def
      using docRoundsInOrder_accepted[OF o(1) r] docWinnersRecorded_accepted[OF o(1) o(2) r]
        docTurnsFollow_accepted[OF o(3) u]
      by blast
    then show ?thesis
      using True j by (simp add: nth_matches_acceptedDb)
  qed
  show ?thesis
    unfolding db_inv_def using refs docs by (simp add: length_matches_acceptedDb)
qed

lemma db_inv_create: "db_inv d \<Longrightarrow> db_inv (snd (createMatch_convex d t1 t2))"
proof -
  assume inv: "db_inv d"
  let ?n = "length (matches_table d)"
  have none: "filter (\<lambda>p. match_id p = ?n \<and> P p) (plays_table d) = []" for P
    using inv by (auto simp: db_inv_def filter_empty_conv)
  have none': "filter (\<lambda>p. match_id p = ?n) (plays_table d) = []"
    using inv by (auto simp: db_inv_def filter_empty_conv)
  show ?thesis
    using inv none none'
    by (auto simp: db_inv_def createMatch_convex_def matches_create_def nth_append less_Suc_eq
        doc_inv_def docRoundsInOrder_def docWinnersRecorded_def docTurnsFollow_def
        roundPlaysOf_def plays_getByMatch_def round_winner_def split: RoundKey.splits)
qed

lemma db_inv_step: "db_inv d \<Longrightarrow> db_inv (convex_step d ev)"
proof (cases ev)
  case (CreateC t1 t2)
  assume "db_inv d"
  with CreateC show ?thesis by (simp add: db_inv_create)
next
  case (SubmitC i uid cv s now)
  assume inv: "db_inv d"
  show ?thesis
  proof (cases "db_get d i")
    case None
    with SubmitC inv show ?thesis by (simp add: submitPlay_convex_eq)
  next
    case (Some m)
    then have i: "i < length (matches_table d)" and m: "m = matches_table d ! i"
      by (auto simp: db_get_def split: if_splits)
    show ?thesis
    proof (cases "CardSchema_parse cv s")
      case None
      with SubmitC Some inv show ?thesis by (simp add: submitPlay_convex_eq)
    next
      case c: (Some c)
      show ?thesis
      proof (cases "current_turn m = uid")
        case False
        with SubmitC Some c inv show ?thesis by (simp add: submitPlay_convex_eq)
      next
        case True
        have "db_inv (acceptedDb d m (newPlay i uid m now c))"
          by (rule db_inv_acceptedDb[OF inv]) (simp_all add: newPlay_def i m True[symmetric])
        with SubmitC Some c True show ?thesis by (simp add: submitPlay_convex_eq)
      qed
    qed
  qed
qed

lemma db_inv_foldl: "db_inv d \<Longrightarrow> db_inv (foldl convex_step d evs)"
  by (induction evs arbitrary: d) (simp_all add: db_inv_step)

lemma db_inv_run: "db_inv (convex_run evs)"
  unfolding convex_run_def by (rule db_inv_foldl) (simp add: db_inv_def)

lemma doc_inv_run:
  "db_get (convex_run evs) i = Some m \<Longrightarrow> doc_inv (convex_run evs) i m"
  using db_inv_run[of evs] by (auto simp: db_inv_def db_get_def split: if_splits)

lemma game_winner_patchedDoc:
  assumes "length rp = 4"
  shows "game_winner (patchedDoc m args rp) =
           (case plays_determineRoundWinner rp m of
              None \<Rightarrow> game_winner m
            | Some w \<Rightarrow>
                (case seriesWinner (round1_winner m) (round2_winner m) w of
                   None \<Rightarrow> game_winner m | Some g \<Rightarrow> Some g))"
  using assms
  by (simp add: patchedDoc_def Let_def teams_set_round_winner split: option.splits)

lemma is_complete_patchedDoc:
  assumes "length rp = 4"
  shows "is_complete (patchedDoc m args rp) =
           (case plays_determineRoundWinner rp m of
              None \<Rightarrow> is_complete m
            | Some w \<Rightarrow>
                (case seriesWinner (round1_winner m) (round2_winner m) w of
                   None \<Rightarrow> is_complete m | Some g \<Rightarrow> True))"
  using assms
  by (simp add: patchedDoc_def Let_def teams_set_round_winner split: option.splits)

lemma unchanged_patchedDoc:
  assumes "length rp \<noteq> 4"
  shows "game_winner (patchedDoc m args rp) = game_winner m"
    "is_complete (patchedDoc m args rp) = is_complete m"
    "current_round (patchedDoc m args rp) = current_round m"
  using assms by (simp_all add: patchedDoc_def)

lemma seriesWinner_decided:
  "\<exists>g. seriesWinner (Some w1) (Some w2) w3 = Some g \<and> 2 \<le> length (filter (\<lambda>w. w = g) [w1, w2, w3])"
  by (cases w1; cases w2; cases w3) (simp_all add: seriesWinner_def)

section \<open>Closing the third round\<close>

lemma round3_closes_inmemory:
  assumes inv: "match_inv m" and r3: "currentRound (state m) = Round3"
    and n: "length (rounds m Round3) = 3" and p: "userId p = currentTurn (state m)"
  shows "\<exists>g. length (rounds (acceptedMatch m p) Round3) = 4 \<and>
             winner (state (acceptedMatch m p)) = Some g \<and>
             gameComplete (state (acceptedMatch m p)) = Some True \<and>
             2 \<le> length (filter (\<lambda>r. roundWinners (state (acceptedMatch m p)) r = Some g)
                            [Round1, Round2, Round3])"
proof -
  let ?m' = "acceptedMatch m p"
  let ?rs = "(rounds m)(Round3 := rounds m Round3 @ [p])"
  have ord: "roundsInOrder m" using inv by (simp add: match_inv_def)
  have rs: "rounds ?m' = ?rs" using r3 by (simp add: rounds_acceptedMatch)
  have l: "length (?rs Round1) = 4" "length (?rs Round2) = 4" "length (?rs Round3) = 4"
    using ord r3 n by (simp_all add: roundsInOrder_def)
  obtain g where g: "determineGameWinner ?rs (state m) = Some (Some g)"
    and maj: "2 \<le> length (filter (\<lambda>r. determineRoundWinner (?rs r) (state m) = Some g)
                              [Round1, Round2, Round3])"
    using determineGameWinner_full[OF l, of "state m"] by blast
  have "winnersRecorded ?m'"
    using match_inv_acceptedMatch[OF inv p] by (simp add: match_inv_def)
  then have rec: "roundWinners (state ?m') r = determineRoundWinner (?rs r) (state m)" for r
    using l by (cases r)
      (simp_all add: winnersRecorded_def rs
        determineRoundWinner_team1[of "state ?m'" "state m", OF team1_acceptedMatch])
  have "winner (state ?m') = Some g" "gameComplete (state ?m') = Some True"
    using g r3 n by (simp_all add: winner_acceptedMatch gameComplete_acceptedMatch)
  moreover have "length (rounds ?m' Round3) = 4" using l rs by simp
  ultimately show ?thesis using maj by (auto simp: rec)
qed

lemma closing_with_two_winners_convex:
  assumes g: "db_get d (match_id args) = Some doc" and t: "current_turn doc = user_id args"
    and w: "round1_winner doc = Some w1" "round2_winner doc = Some w2"
    and n: "length (roundPlaysOf d (match_id args) (play_round args)) = 3"
  shows "\<exists>k d' doc' w3 g.
           plays_create d args = Inr (k, d') \<and> db_get d' (match_id args) = Some doc' \<and>
           plays_determineRoundWinner (roundPlaysOf d (match_id args) (play_round args) @ [args]) doc = Some w3 \<and>
           game_winner doc' = Some g \<and> is_complete doc' \<and>
           2 \<le> length (filter (\<lambda>w. w = g) [w1, w2, w3])"
proof -
  let ?rp = "roundPlaysOf d (match_id args) (play_round args) @ [args]"
  obtain w3 where w3: "plays_determineRoundWinner ?rp doc = Some w3"
    using plays_determineRoundWinner_Some[of ?rp doc] by auto
  obtain g where sw: "seriesWinner (Some w1) (Some w2) w3 = Some g"
    and maj: "2 \<le> length (filter (\<lambda>w. w = g) [w1, w2, w3])"
    using seriesWinner_decided by blast
  have len: "length ?rp = 4" using n by simp
  have "game_winner (patchedDoc doc args ?rp) = Some g" "is_complete (patchedDoc doc args ?rp)"
    using w w3 sw by (simp_all add: game_winner_patchedDoc[OF len] is_complete_patchedDoc[OF len])
  then show ?thesis
    using plays_create_eq[OF g t] db_get_acceptedDb[OF g] w3 maj by blast
qed

lemma round3_closes_convex:
  assumes inv: "doc_inv d i doc" and r3: "current_round doc = Round3"
    and n: "length (roundPlaysOf d i Round3) = 3"
    and a: "match_id args = i" "play_round args = Round3"
  shows "\<exists>g. game_winner (patchedDoc doc args (roundPlaysOf d i Round3 @ [args])) = Some g \<and>
             is_complete (patchedDoc doc args (roundPlaysOf d i Round3 @ [args])) \<and>
             2 \<le> length (filter (\<lambda>r. round_winner r (patchedDoc doc args (roundPlaysOf d i Round3 @ [args])) = Some g)
                            [Round1, Round2, Round3])"
proof -
  let ?rp = "roundPlaysOf d i Round3 @ [args]"
  let ?doc' = "patchedDoc doc args ?rp"
  have len: "length ?rp = 4" using n by simp
  have l: "length (roundPlaysOf d i Round1) = 4" "length (roundPlaysOf d i Round2) = 4"
    using inv r3 by (simp_all add: doc_inv_def docRoundsInOrder_def)
  then have ne: "take 4 (roundPlaysOf d i Round1) \<noteq> []" "take 4 (roundPlaysOf d i Round2) \<noteq> []"
    by auto
  have rec: "round_winner r doc =
          (if 4 \<le> length (roundPlaysOf d i r)
           then plays_determineRoundWinner (take 4 (roundPlaysOf d i r)) doc else None)" for r
    using inv by (simp add: doc_inv_def docWinnersRecorded_def)
  obtain w1 w2 where w: "round_winner Round1 doc = Some w1" "round_winner Round2 doc = Some w2"
    using rec[of Round1] rec[of Round2] l plays_determineRoundWinner_Some[OF ne(1), of doc]
      plays_determineRoundWinner_Some[OF ne(2), of doc]
    by auto
  obtain w3 where w3: "plays_determineRoundWinner ?rp doc = Some w3"
    using plays_determineRoundWinner_Some[of ?rp doc] by auto
  obtain g where sw: "seriesWinner (Some w1) (Some w2) w3 = Some g"
    and maj: "2 \<le> length (filter (\<lambda>w. w = g) [w1, w2, w3])"
    using seriesWinner_decided by blast
  have w': "round1_winner doc = Some w1" "round2_winner doc = Some w2"
    using w by (simp_all add: round_winner_def)
  have gw: "game_winner ?doc' = Some g" "is_complete ?doc'"
    using w' w3 sw by (simp_all add: game_winner_patchedDoc[OF len] is_complete_patchedDoc[OF len])
  have rw: "round_winner Round1 ?doc' = Some w1" "round_winner Round2 ?doc' = Some w2"
    "round_winner Round3 ?doc' = Some w3"
    using w w3 len a by (simp_all add: round_winner_patchedDoc)
  have "2 \<le> length (filter (\<lambda>r. round_winner r ?doc' = Some g) [Round1, Round2, Round3])"
    using maj rw by (cases w1; cases w2; cases w3; cases g) simp_all
  with gw show ?thesis by blast
qed

lemma gameComplete_stays:
  "gameComplete (state m) = Some True \<Longrightarrow> gameComplete (state (acceptedMatch m p)) = Some True"
  by (simp add: gameComplete_acceptedMatch split: option.splits)

lemma is_complete_stays:
  assumes "is_complete m"
  shows "is_complete (patchedDoc m args rp)"
proof (cases "length rp = 4")
  case True
  with assms show ?thesis
    by (simp add: is_complete_patchedDoc split: option.splits)
next
  case False
  with assms show ?thesis by (simp add: unchanged_patchedDoc)
qed

lemma round_closure_inmemory:
  assumes "match_inv m"
  shows "(roundWinners (state m) Round1 \<noteq> None) = (length (rounds m Round1) = 4)"
    "(roundWinners (state m) Round2 \<noteq> None) = (length (rounds m Round2) = 4)"
    "(roundWinners (state m) Round3 \<noteq> None) = (4 \<le> length (rounds m Round3))"
    "length (rounds m Round1) \<le> 4" "length (rounds m Round2) \<le> 4"
proof -
  have ord: "roundsInOrder m" and rec: "winnersRecorded m"
    using assms by (simp_all add: match_inv_def)
  have w: "roundWinners (state m) r =
          (if 4 \<le> length (rounds m r)
           then determineRoundWinner (take 4 (rounds m r)) (state m) else None)" for r
    using rec by (simp add: winnersRecorded_def)
  have some: "determineRoundWinner (take 4 ps) (state m) \<noteq> None" if "4 \<le> length ps" for ps
  proof -
    have "take 4 ps \<noteq> []" using that by auto
    then show ?thesis using determineRoundWinner_Some[of "take 4 ps" "state m"] by auto
  qed
  show l1: "length (rounds m Round1) \<le> 4" and l2: "length (rounds m Round2) \<le> 4"
    using ord by (cases "currentRound (state m)"; simp add: roundsInOrder_def)+
  show "(roundWinners (state m) Round1 \<noteq> None) = (length (rounds m Round1) = 4)"
    using w[of Round1] l1 some[of "rounds m Round1"] by auto
  show "(roundWinners (state m) Round2 \<noteq> None) = (length (rounds m Round2) = 4)"
    using w[of Round2] l2 some[of "rounds m Round2"] by auto
  show "(roundWinners (state m) Round3 \<noteq> None) = (4 \<le> length (rounds m Round3))"
    using w[of Round3] some[of "rounds m Round3"] by auto
qed

lemma round_closure_convex:
  assumes "doc_inv d i doc"
  shows "(round1_winner doc \<noteq> None) = (length (roundPlaysOf d i Round1) = 4)"
    "(round2_winner doc \<noteq> None) = (length (roundPlaysOf d i Round2) = 4)"
    "(round3_winner doc \<noteq> None) = (4 \<le> length (roundPlaysOf d i Round3))"
    "length (roundPlaysOf d i Round1) \<le> 4" "length (roundPlaysOf d i Round2) \<le> 4"
proof -
  have ord: "docRoundsInOrder d i doc" and rec: "docWinnersRecorded d i doc"
    using assms by (simp_all add: doc_inv_def)
  have w: "round_winner r doc =
          (if 4 \<le> length (roundPlaysOf d i r)
           then plays_determineRoundWinner (take 4 (roundPlaysOf d i r)) doc else None)" for r
    using rec by (simp add: docWinnersRecorded_def)
  have some: "plays_determineRoundWinner (take 4 ps) doc \<noteq> None" if "4 \<le> length ps" for ps
  proof -
    have "take 4 ps \<noteq> []" using that by auto
    then show ?thesis using plays_determineRoundWinner_Some[of "take 4 ps" doc] by auto
  qed
  show l1: "length (roundPlaysOf d i Round1) \<le> 4" and l2: "length (roundPlaysOf d i Round2) \<le> 4"
    using ord by (cases "current_round doc"; simp add: docRoundsInOrder_def)+
  show "(round1_winner doc \<noteq> None) = (length (roundPlaysOf d i Round1) = 4)"
    using w[of Round1] l1 some[of "roundPlaysOf d i Round1"] by (auto simp: round_winner_def)
  show "(round2_winner doc \<noteq> None) = (length (roundPlaysOf d i Round2) = 4)"
    using w[of Round2] l2 some[of "roundPlaysOf d i Round2"] by (auto simp: round_winner_def)
  show "(round3_winner doc \<noteq> None) = (4 \<le> length (roundPlaysOf d i Round3))"
    using w[of Round3] some[of "roundPlaysOf d i Round3"] by (auto simp: round_winner_def)
qed

lemma getNextPlayer_ring:
  assumes "distinct [player1 (team1 st), player1 (team2 st), player2 (team1 st), player2 (team2 st)]"
  shows "getNextPlayer st (player1 (team1 st)) = player1 (team2 st)"
    "getNextPlayer st (player1 (team2 st)) = player2 (team1 st)"
    "getNextPlayer st (player2 (team1 st)) = player2 (team2 st)"
    "getNextPlayer st (player2 (team2 st)) = player1 (team1 st)"
  using assms by (auto simp: getNextPlayer_def)

lemma plays_getNextPlayer_ring:
  assumes "distinct [team1_player1 doc, team2_player1 doc, team1_player2 doc, team2_player2 doc]"
  shows "plays_getNextPlayer doc (team1_player1 doc) = team2_player1 doc"
    "plays_getNextPlayer doc (team2_player1 doc) = team1_player2 doc"
    "plays_getNextPlayer doc (team1_player2 doc) = team2_player2 doc"
    "plays_getNextPlayer doc (team2_player2 doc) = team1_player1 doc"
  using assms by (auto simp: plays_getNextPlayer_def)

section \<open>Closing the second round\<close>

text \<open>
  In the in-memory service the play that closes round2 ends the series when both rounds
  went to the same team, since \<^verbatim>\<open>determineGameWinner\<close> counts the rounds of four plays
  afresh. In the plays mutation the game-winner test reads both stored winners from the
  match document as it was read before the patch; while round2 is the current round its
  winner is not stored yet, so the play that closes round2 never sets the game winner.
\<close>

lemma round2_closes_inmemory:
  assumes inv: "match_inv m" and r2: "currentRound (state m) = Round2"
    and n: "length (rounds m Round2) = 3" and p: "userId p = currentTurn (state m)"
  shows "\<exists>w1 w2.
           roundWinners (state (acceptedMatch m p)) Round1 = Some w1 \<and>
           roundWinners (state (acceptedMatch m p)) Round2 = Some w2 \<and>
           rounds (acceptedMatch m p) Round3 = [] \<and>
           (w1 = w2 \<longrightarrow> winner (state (acceptedMatch m p)) = Some w1 \<and>
                       gameComplete (state (acceptedMatch m p)) = Some True)"
proof -
  let ?m' = "acceptedMatch m p"
  let ?rs = "(rounds m)(Round2 := rounds m Round2 @ [p])"
  have ord: "roundsInOrder m" and rec: "winnersRecorded m"
    using inv by (simp_all add: match_inv_def)
  have l: "length (rounds m Round1) = 4" "rounds m Round3 = []"
    using ord r2 by (simp_all add: roundsInOrder_def)
  have ne: "rounds m Round1 \<noteq> []" using l(1) by auto
  obtain w1 where w1: "determineRoundWinner (rounds m Round1) (state m) = Some w1"
    using determineRoundWinner_Some[OF ne] by blast
  obtain w2 where w2: "determineRoundWinner (rounds m Round2 @ [p]) (state m) = Some w2"
    using determineRoundWinner_Some[of "rounds m Round2 @ [p]" "state m"] by auto
  have old: "roundWinners (state m) Round1 = Some w1"
    using rec l w1 by (simp add: winnersRecorded_def)
  have a: "roundWinners (state ?m') Round1 = Some w1"
    using old r2 n by (simp add: roundWinners_acceptedMatch)
  have b: "roundWinners (state ?m') Round2 = Some w2"
    using w2 r2 n by (simp add: roundWinners_acceptedMatch)
  have c: "rounds ?m' Round3 = []"
    using l r2 by (simp add: rounds_acceptedMatch)
  have g: "determineGameWinner ?rs (state m) =
             Some (if w1 = w2 then Some w1 else None)"
    using l n w1 w2 by (cases w1; cases w2) (simp_all add: determineGameWinner_def)
  have "w1 = w2 \<longrightarrow> winner (state ?m') = Some w1 \<and> gameComplete (state ?m') = Some True"
    using g r2 n by (simp add: winner_acceptedMatch gameComplete_acceptedMatch)
  with a b c show ?thesis by blast
qed

lemma sweep_ends_series_inmemory:
  assumes "run evs mid = Some m" "currentRound (state m) = Round2"
    "length (rounds m Round2) = 3" "CardSchema_parse cv s \<noteq> None" "uid = currentTurn (state m)"
  shows "\<exists>m' w1 w2.
           submitPlay (run evs) mid uid cv s pid now = (Accepted m', (run evs)(mid \<mapsto> m')) \<and>
           roundWinners (state m') Round1 = Some w1 \<and>
           roundWinners (state m') Round2 = Some w2 \<and>
           rounds m' Round3 = [] \<and>
           (w1 = w2 \<longrightarrow> winner (state m') = Some w1 \<and> gameComplete (state m') = Some True)"
proof -
  obtain c where c: "CardSchema_parse cv s = Some c" using assms(4) by auto
  let ?p = "\<lparr>playId = pid, userId = uid, timestamp = now, playCard = c\<rparr>"
  have inv: "match_inv m" using assms(1) by (rule match_inv_run)
  have eq: "submitPlay (run evs) mid uid cv s pid now =
              (Accepted (acceptedMatch m ?p), (run evs)(mid \<mapsto> acceptedMatch m ?p))"
    using assms c by (simp add: submitPlay_eq)
  from round2_closes_inmemory[OF inv assms(2,3), of ?p] assms(5) eq
  show ?thesis by auto
qed

lemma round2_never_completes_convex:
  assumes "db_get (convex_run cevs) i = Some doc" "current_round doc = Round2"
    "submitPlay_convex (convex_run cevs) i uid cv s now = (C_Accepted doc' ps, d')"
  shows "game_winner doc' = game_winner doc \<and> is_complete doc' = is_complete doc"
proof -
  let ?d = "convex_run cevs"
  obtain c where
    doc': "doc' = patchedDoc doc (newPlay i uid doc now c)
                        (roundPlaysOf ?d i (current_round doc) @ [newPlay i uid doc now c])"
    using assms(1,3) by (auto simp: submitPlay_convex_eq split: option.splits if_splits)
  let ?a = "newPlay i uid doc now c"
  let ?rp = "roundPlaysOf ?d i (current_round doc) @ [?a]"
  have inv: "doc_inv ?d i doc" using assms(1) by (rule doc_inv_run)
  then have "length (roundPlaysOf ?d i Round2) < 4" and rec: "docWinnersRecorded ?d i doc"
    using assms(2) by (simp_all add: doc_inv_def docRoundsInOrder_def)
  then have "round_winner Round2 doc = None"
    by (simp add: docWinnersRecorded_def)
  then have none: "round2_winner doc = None" by (simp add: round_winner_def)
  have sw: "seriesWinner (round1_winner doc) None w = None" for w
    by (simp add: seriesWinner_def)
  show ?thesis
  proof (cases "length ?rp = 4")
    case True
    then show ?thesis
      unfolding doc'
      by (simp add: game_winner_patchedDoc is_complete_patchedDoc none sw split: option.splits)
  next
    case False
    then show ?thesis
      unfolding doc' using unchanged_patchedDoc[OF False] by simp
  qed
qed

section \<open>Evaluation of the concrete matches\<close>

lemmas eval_defs =
  run_def createMatch_def newMatch_def submitPlay_def CardSchema_parse_def suits_def
  teamAB_def teamCD_def getNextPlayer_def determineRoundWinner_def determineGameWinner_def
  higher_def nextRound_def Let_def

lemmas eval_convex_defs =
  convex_run_def createMatch_convex_def matches_create_def submitPlay_convex_def plays_create_def
  db_get_def CardSchema_parse_def suits_def teamAB_def teamCD_def plays_getNextPlayer_def
  plays_determineRoundWinner_def plays_higher_def set_round_winner_def plays_getByMatch_def
  roundPlaysOf_def Let_def

lemma run_sweep_facts:
  "run sweep ''m'' \<noteq> None"
  "currentRound (state (the (run sweep ''m''))) = Round3"
  "currentTurn (state (the (run sweep ''m''))) = ''A''"
  "gameComplete (state (the (run sweep ''m''))) = Some True"
  "winner (state (the (run sweep ''m''))) = Some Team1"
  "roundWinners (state (the (run sweep ''m''))) Round1 = Some Team1"
  "roundWinners (state (the (run sweep ''m''))) Round2 = Some Team1"
  "rounds (the (run sweep ''m'')) Round3 = []"
  by (simp_all add: sweep_def eval_defs)

lemma run_elevenPlays_facts:
  "run elevenPlays ''m'' \<noteq> None"
  "currentRound (state (the (run elevenPlays ''m''))) = Round3"
  "currentTurn (state (the (run elevenPlays ''m''))) = ''D''"
  "length (rounds (the (run elevenPlays ''m'')) Round3) = 3"
  by (simp_all add: elevenPlays_def sweep_def eval_defs)

lemma run_twelvePlays_facts:
  "run twelvePlays ''m'' \<noteq> None"
  "gameComplete (state (the (run twelvePlays ''m''))) = Some True"
  "currentTurn (state (the (run twelvePlays ''m''))) = ''A''"
  "currentRound (state (the (run twelvePlays ''m''))) = Round3"
  "length (rounds (the (run twelvePlays ''m'')) Round3) = 4"
  by (simp_all add: twelvePlays_def elevenPlays_def sweep_def eval_defs)

lemma run_overrun_facts:
  "run overrun ''m'' \<noteq> None"
  "length (rounds (the (run overrun ''m'')) Round3) = 5"
  "roundWinners (state (the (run overrun ''m''))) Round3 = Some Team2"
  "length (allPlays (the (run overrun ''m''))) = 13"
  by (simp_all add: overrun_def twelvePlays_def elevenPlays_def sweep_def allPlays_def eval_defs)

lemma convex_run_sweepC_facts:
  "db_get (convex_run sweepC) 0 \<noteq> None"
  "current_round (the (db_get (convex_run sweepC) 0)) = Round3"
  "current_turn (the (db_get (convex_run sweepC) 0)) = ''A''"
  "round1_winner (the (db_get (convex_run sweepC) 0)) = Some Team1"
  "round2_winner (the (db_get (convex_run sweepC) 0)) = Some Team1"
  "game_winner (the (db_get (convex_run sweepC) 0)) = None"
  "is_complete (the (db_get (convex_run sweepC) 0)) = False"
  "length (plays_table (convex_run sweepC)) = 8"
  "roundPlaysOf (convex_run sweepC) 0 Round3 = []"
  by (simp_all add: sweepC_def eval_convex_defs)

lemma convex_run_elevenPlaysC_facts:
  "db_get (convex_run elevenPlaysC) 0 \<noteq> None"
  "current_round (the (db_get (convex_run elevenPlaysC) 0)) = Round3"
  "current_turn (the (db_get (convex_run elevenPlaysC) 0)) = ''D''"
  "round1_winner (the (db_get (convex_run elevenPlaysC) 0)) = Some Team1"
  "round2_winner (the (db_get (convex_run elevenPlaysC) 0)) = Some Team1"
  "length (roundPlaysOf (convex_run elevenPlaysC) 0 Round3) = 3"
  by (simp_all add: elevenPlaysC_def sweepC_def eval_convex_defs)

lemma convex_run_twelvePlaysC_facts:
  "db_get (convex_run twelvePlaysC) 0 \<noteq> None"
  "is_complete (the (db_get (convex_run twelvePlaysC) 0)) = True"
  "game_winner (the (db_get (convex_run twelvePlaysC) 0)) = Some Team1"
  "current_turn (the (db_get (convex_run twelvePlaysC) 0)) = ''A''"
  "current_round (the (db_get (convex_run twelvePlaysC) 0)) = Round3"
  "length (plays_table (convex_run twelvePlaysC)) = 12"
  "length (roundPlaysOf (convex_run twelvePlaysC) 0 Round3) = 4"
  by (simp_all add: twelvePlaysC_def elevenPlaysC_def sweepC_def eval_convex_defs)

lemma convex_run_overrunC_facts:
  "db_get (convex_run overrunC) 0 \<noteq> None"
  "is_complete (the (db_get (convex_run overrunC) 0)) = True"
  "round3_winner (the (db_get (convex_run overrunC) 0)) = Some Team2"
  "length (roundPlaysOf (convex_run overrunC) 0 Round3) = 5"
  "length (plays_table (convex_run overrunC)) = 13"
  "length (plays_getByMatch (convex_run overrunC) 0) = 13"
  by (simp_all add: overrunC_def twelvePlaysC_def elevenPlaysC_def sweepC_def eval_convex_defs)

lemma ninthPlay_accepted:
  "ninthPlay =
     (Accepted (acceptedMatch (the (run sweep ''m''))
                  \<lparr>playId = ''p9'', userId = ''A'', timestamp = 9,
                    playCard = \<lparr>cardValue = 1, cardSuit = ''clubs''\<rparr>\<rparr>),
      (run sweep)(''m'' \<mapsto> acceptedMatch (the (run sweep ''m''))
                  \<lparr>playId = ''p9'', userId = ''A'', timestamp = 9,
                    playCard = \<lparr>cardValue = 1, cardSuit = ''clubs''\<rparr>\<rparr>))"
proof -
  have p: "CardSchema_parse (Some 1) ''clubs'' = Some \<lparr>cardValue = 1, cardSuit = ''clubs''\<rparr>"
    by (simp add: CardSchema_parse_def suits_def)
  obtain m where m: "run sweep ''m'' = Some m"
    using run_sweep_facts(1) by blast
  then have "currentTurn (state m) = ''A''"
    using run_sweep_facts(3) by simp
  then show ?thesis
    unfolding ninthPlay_def using m p by (simp add: submitPlay_eq)
qed

lemma ninthPlayC_accepted:
  "ninthPlayC =
     (C_Accepted
        (patchedDoc (the (db_get (convex_run sweepC) 0))
           (newPlay 0 ''A'' (the (db_get (convex_run sweepC) 0)) 9 \<lparr>cardValue = 1, cardSuit = ''clubs''\<rparr>)
           (roundPlaysOf (convex_run sweepC) 0 Round3 @
              [newPlay 0 ''A'' (the (db_get (convex_run sweepC) 0)) 9 \<lparr>cardValue = 1, cardSuit = ''clubs''\<rparr>]))
        (plays_getByMatch
           (acceptedDb (convex_run sweepC) (the (db_get (convex_run sweepC) 0))
              (newPlay 0 ''A'' (the (db_get (convex_run sweepC) 0)) 9 \<lparr>cardValue = 1, cardSuit = ''clubs''\<rparr>)) 0),
      acceptedDb (convex_run sweepC) (the (db_get (convex_run sweepC) 0))
        (newPlay 0 ''A'' (the (db_get (convex_run sweepC) 0)) 9 \<lparr>cardValue = 1, cardSuit = ''clubs''\<rparr>))"
proof -
  have p: "CardSchema_parse (Some 1) ''clubs'' = Some \<lparr>cardValue = 1, cardSuit = ''clubs''\<rparr>"
    by (simp add: CardSchema_parse_def suits_def)
  obtain doc where m: "db_get (convex_run sweepC) 0 = Some doc"
    using convex_run_sweepC_facts(1) by blast
  then have "current_turn doc = ''A''" "current_round doc = Round3"
    using convex_run_sweepC_facts(2,3) by simp_all
  then show ?thesis
    unfolding ninthPlayC_def using m p by (simp add: submitPlay_convex_eq)
qed

section \<open>The claims\<close>

text \<open>
  C1. When one team wins both round1 and round2, the play request that records the eighth
  play sets the game winner to that team and completes the match in that same request,
  with round3 still empty. The requests of \<open>sweepC\<close> against the Convex-backed service
  are such a match: after the eighth play both rounds are recorded for team1, yet the
  match document has no game winner and is not complete, and the current round is
  round3. The same requests against the in-memory service (\<open>sweep\<close>) end with team1 as
  the winner of a complete match; \<open>sweep_ends_series_inmemory\<close> above shows this for
  every match of the in-memory service, and \<open>round2_never_completes_convex\<close> that the
  Convex-backed service never completes a match with the play that closes round2.
\<close>

theorem convex_sweep_leaves_match_open:
  "db_get (convex_run sweepC) 0 \<noteq> None \<and>
   length (plays_table (convex_run sweepC)) = 8 \<and>
   round1_winner (the (db_get (convex_run sweepC) 0)) = Some Team1 \<and>
   round2_winner (the (db_get (convex_run sweepC) 0)) = Some Team1 \<and>
   game_winner (the (db_get (convex_run sweepC) 0)) = None \<and>
   is_complete (the (db_get (convex_run sweepC) 0)) = False \<and>
   current_round (the (db_get (convex_run sweepC) 0)) = Round3 \<and>
   run sweep ''m'' \<noteq> None \<and>
   roundWinners (state (the (run sweep ''m''))) Round1 = Some Team1 \<and>
   roundWinners (state (the (run sweep ''m''))) Round2 = Some Team1 \<and>
   winner (state (the (run sweep ''m''))) = Some Team1 \<and>
   gameComplete (state (the (run sweep ''m''))) = Some True \<and>
   rounds (the (run sweep ''m'')) Round3 = []"
  by (intro conjI)
    (fact convex_run_sweepC_facts(1) convex_run_sweepC_facts(8) convex_run_sweepC_facts(4)
      convex_run_sweepC_facts(5) convex_run_sweepC_facts(6) convex_run_sweepC_facts(7)
      convex_run_sweepC_facts(2) run_sweep_facts(1) run_sweep_facts(6) run_sweep_facts(7)
      run_sweep_facts(5) run_sweep_facts(4) run_sweep_facts(8))+

text \<open>
  C6. For every non-empty list of round plays, the round resolver selects the play with
  the greatest card value, the first such play in input order when several share the
  maximum, and returns team1 exactly when that play's player is team1's player1 or
  player2, and team2 otherwise (also when the player is in neither team). Index \<open>i\<close> is
  the selected play: no play has a greater value, and every earlier play has a smaller
  one. The statement covers \<^verbatim>\<open>determineRoundWinner\<close> of the in-memory service and of the
  plays module.
\<close>

theorem round_winner_is_first_highest_play:
  "(plays \<noteq> [] \<longrightarrow>
      (\<exists>i < length plays.
         (\<forall>j < length plays. cardValue (playCard (plays ! j)) \<le> cardValue (playCard (plays ! i))) \<and>
         (\<forall>j < i. cardValue (playCard (plays ! j)) < cardValue (playCard (plays ! i))) \<and>
         determineRoundWinner plays st =
           Some (if userId (plays ! i) = player1 (team1 st) \<or> userId (plays ! i) = player2 (team1 st)
                 then Team1 else Team2))) \<and>
   (docs \<noteq> [] \<longrightarrow>
      (\<exists>i < length docs.
         (\<forall>j < length docs. card_value (docs ! j) \<le> card_value (docs ! i)) \<and>
         (\<forall>j < i. card_value (docs ! j) < card_value (docs ! i)) \<and>
         plays_determineRoundWinner docs m =
           Some (if user_id (docs ! i) = team1_player1 m \<or> user_id (docs ! i) = team1_player2 m
                 then Team1 else Team2)))"
proof (intro conjI impI)
  assume "plays \<noteq> []"
  then obtain i where "i < length plays" "reduce higher plays = Some (plays ! i)"
    "\<forall>j < length plays. cardValue (playCard (plays ! j)) \<le> cardValue (playCard (plays ! i))"
    "\<forall>j < i. cardValue (playCard (plays ! j)) < cardValue (playCard (plays ! i))"
    using reduce_first_max[of higher "\<lambda>p. cardValue (playCard p)" plays]
    by (auto simp: higher_def)
  then show "\<exists>i < length plays.
         (\<forall>j < length plays. cardValue (playCard (plays ! j)) \<le> cardValue (playCard (plays ! i))) \<and>
         (\<forall>j < i. cardValue (playCard (plays ! j)) < cardValue (playCard (plays ! i))) \<and>
         determineRoundWinner plays st =
           Some (if userId (plays ! i) = player1 (team1 st) \<or> userId (plays ! i) = player2 (team1 st)
                 then Team1 else Team2)"
    by (intro exI[of _ i]) (simp add: determineRoundWinner_def)
next
  assume "docs \<noteq> []"
  then obtain i where "i < length docs" "reduce plays_higher docs = Some (docs ! i)"
    "\<forall>j < length docs. card_value (docs ! j) \<le> card_value (docs ! i)"
    "\<forall>j < i. card_value (docs ! j) < card_value (docs ! i)"
    using reduce_first_max[of plays_higher card_value docs]
    by (auto simp: plays_higher_def)
  then show "\<exists>i < length docs.
         (\<forall>j < length docs. card_value (docs ! j) \<le> card_value (docs ! i)) \<and>
         (\<forall>j < i. card_value (docs ! j) < card_value (docs ! i)) \<and>
         plays_determineRoundWinner docs m =
           Some (if user_id (docs ! i) = team1_player1 m \<or> user_id (docs ! i) = team1_player2 m
                 then Team1 else Team2)"
    by (intro exI[of _ i]) (simp add: plays_determineRoundWinner_def)
qed

theorem round_winner_is_first_highest_play_witness:
  "tiedRound \<noteq> [] \<and> tiedRoundDocs \<noteq> [] \<and>
   (\<exists>i < length tiedRound.
      (\<forall>j < length tiedRound.
          cardValue (playCard (tiedRound ! j)) \<le> cardValue (playCard (tiedRound ! i))) \<and>
      (\<forall>j < i. cardValue (playCard (tiedRound ! j)) < cardValue (playCard (tiedRound ! i))) \<and>
      determineRoundWinner tiedRound stateAB =
        Some (if userId (tiedRound ! i) = player1 (team1 stateAB) \<or>
                 userId (tiedRound ! i) = player2 (team1 stateAB)
              then Team1 else Team2)) \<and>
   (\<exists>i < length tiedRoundDocs.
      (\<forall>j < length tiedRoundDocs. card_value (tiedRoundDocs ! j) \<le> card_value (tiedRoundDocs ! i)) \<and>
      (\<forall>j < i. card_value (tiedRoundDocs ! j) < card_value (tiedRoundDocs ! i)) \<and>
      plays_determineRoundWinner tiedRoundDocs docAB =
        Some (if user_id (tiedRoundDocs ! i) = team1_player1 docAB \<or>
                 user_id (tiedRoundDocs ! i) = team1_player2 docAB
              then Team1 else Team2)) \<and>
   determineRoundWinner tiedRound stateAB = Some Team1 \<and>
   plays_determineRoundWinner tiedRoundDocs docAB = Some Team1"
proof -
  have h1: "tiedRound \<noteq> []" by (simp add: tiedRound_def)
  have h2: "tiedRoundDocs \<noteq> []" by (simp add: tiedRoundDocs_def)
  have e1: "determineRoundWinner tiedRound stateAB = Some Team1"
    by (simp add: tiedRound_def stateAB_def eval_defs)
  have e2: "plays_determineRoundWinner tiedRoundDocs docAB = Some Team1"
    by (simp add: tiedRoundDocs_def docAB_def eval_convex_defs)
  from round_winner_is_first_highest_play[of tiedRound stateAB tiedRoundDocs docAB] h1 h2 e1 e2
  show ?thesis by blast
qed

text \<open>
  C7. For every assignment of winners to all three rounds the series resolver is decided:
  some team has at least two round wins, so whenever round3 closes the game winner is set.
  First conjunct: \<^verbatim>\<open>determineGameWinner\<close> on three rounds of four plays returns a team,
  and that team won at least two of them. Second: in every reachable table of the
  in-memory service, the play that closes round3 is accepted and sets \<^verbatim>\<open>winner\<close> and
  \<^verbatim>\<open>gameComplete\<close>, to a team with at least two recorded round wins. Third: the plays
  mutation, on a match whose round1 and round2 winners are stored, sets \<^verbatim>\<open>game_winner\<close>
  and \<^verbatim>\<open>is_complete\<close> with the closing play, to a team that has two of the three wins.
  Fourth: the same for the play route over Convex in every reachable database.
\<close>

theorem three_resolved_rounds_decide_the_series:
  "(length (rs Round1) = 4 \<and> length (rs Round2) = 4 \<and> length (rs Round3) = 4 \<longrightarrow>
      (\<exists>g. determineGameWinner rs st = Some (Some g) \<and>
           2 \<le> length (filter (\<lambda>r. determineRoundWinner (rs r) st = Some g)
                          [Round1, Round2, Round3]))) \<and>
   (run evs mid = Some m \<and> currentRound (state m) = Round3 \<and> length (rounds m Round3) = 3 \<and>
    CardSchema_parse cv s \<noteq> None \<and> uid = currentTurn (state m) \<longrightarrow>
      (\<exists>m' g. submitPlay (run evs) mid uid cv s pid now = (Accepted m', (run evs)(mid \<mapsto> m')) \<and>
          length (rounds m' Round3) = 4 \<and>
          winner (state m') = Some g \<and> gameComplete (state m') = Some True \<and>
          2 \<le> length (filter (\<lambda>r. roundWinners (state m') r = Some g) [Round1, Round2, Round3]))) \<and>
   (db_get d (match_id args) = Some doc \<and> current_turn doc = user_id args \<and>
    round1_winner doc = Some w1 \<and> round2_winner doc = Some w2 \<and>
    length (roundPlaysOf d (match_id args) (play_round args)) = 3 \<longrightarrow>
      (\<exists>k d' doc' w3 g.
          plays_create d args = Inr (k, d') \<and> db_get d' (match_id args) = Some doc' \<and>
          plays_determineRoundWinner
            (roundPlaysOf d (match_id args) (play_round args) @ [args]) doc = Some w3 \<and>
          game_winner doc' = Some g \<and> is_complete doc' \<and>
          2 \<le> length (filter (\<lambda>w. w = g) [w1, w2, w3]))) \<and>
   (db_get (convex_run cevs) i = Some cdoc \<and> current_round cdoc = Round3 \<and>
    length (roundPlaysOf (convex_run cevs) i Round3) = 3 \<and>
    CardSchema_parse cv s \<noteq> None \<and> uid = current_turn cdoc \<longrightarrow>
      (\<exists>doc' ps d' g.
          submitPlay_convex (convex_run cevs) i uid cv s now = (C_Accepted doc' ps, d') \<and>
          db_get d' i = Some doc' \<and> length (roundPlaysOf d' i Round3) = 4 \<and>
          game_winner doc' = Some g \<and> is_complete doc' \<and>
          2 \<le> length (filter (\<lambda>r. round_winner r doc' = Some g) [Round1, Round2, Round3])))"
proof (intro conjI impI)
  assume "length (rs Round1) = 4 \<and> length (rs Round2) = 4 \<and> length (rs Round3) = 4"
  then show "\<exists>g. determineGameWinner rs st = Some (Some g) \<and>
           2 \<le> length (filter (\<lambda>r. determineRoundWinner (rs r) st = Some g)
                          [Round1, Round2, Round3])"
    using determineGameWinner_full by blast
next
  assume h: "run evs mid = Some m \<and> currentRound (state m) = Round3 \<and>
    length (rounds m Round3) = 3 \<and> CardSchema_parse cv s \<noteq> None \<and> uid = currentTurn (state m)"
  then obtain c where c: "CardSchema_parse cv s = Some c" by auto
  let ?p = "\<lparr>playId = pid, userId = uid, timestamp = now, playCard = c\<rparr>"
  have inv: "match_inv m" using h match_inv_run by blast
  have eq: "submitPlay (run evs) mid uid cv s pid now =
              (Accepted (acceptedMatch m ?p), (run evs)(mid \<mapsto> acceptedMatch m ?p))"
    using h c by (simp add: submitPlay_eq)
  from round3_closes_inmemory[OF inv, of ?p] h eq
  show "\<exists>m' g. submitPlay (run evs) mid uid cv s pid now = (Accepted m', (run evs)(mid \<mapsto> m')) \<and>
          length (rounds m' Round3) = 4 \<and>
          winner (state m') = Some g \<and> gameComplete (state m') = Some True \<and>
          2 \<le> length (filter (\<lambda>r. roundWinners (state m') r = Some g) [Round1, Round2, Round3])"
    by auto
next
  assume "db_get d (match_id args) = Some doc \<and> current_turn doc = user_id args \<and>
    round1_winner doc = Some w1 \<and> round2_winner doc = Some w2 \<and>
    length (roundPlaysOf d (match_id args) (play_round args)) = 3"
  then show "\<exists>k d' doc' w3 g.
          plays_create d args = Inr (k, d') \<and> db_get d' (match_id args) = Some doc' \<and>
          plays_determineRoundWinner
            (roundPlaysOf d (match_id args) (play_round args) @ [args]) doc = Some w3 \<and>
          game_winner doc' = Some g \<and> is_complete doc' \<and>
          2 \<le> length (filter (\<lambda>w. w = g) [w1, w2, w3])"
    using closing_with_two_winners_convex[of d args doc w1 w2] by blast
next
  let ?d = "convex_run cevs"
  assume h: "db_get ?d i = Some cdoc \<and> current_round cdoc = Round3 \<and>
    length (roundPlaysOf ?d i Round3) = 3 \<and>
    CardSchema_parse cv s \<noteq> None \<and> uid = current_turn cdoc"
  then obtain c where c: "CardSchema_parse cv s = Some c" by auto
  let ?a = "newPlay i uid cdoc now c"
  let ?doc' = "patchedDoc cdoc ?a (roundPlaysOf ?d i Round3 @ [?a])"
  have inv: "doc_inv ?d i cdoc" using h doc_inv_run by blast
  have a: "match_id ?a = i" "play_round ?a = Round3"
    using h by (simp_all add: newPlay_def)
  have eq: "submitPlay_convex ?d i uid cv s now =
              (C_Accepted ?doc' (plays_getByMatch (acceptedDb ?d cdoc ?a) i), acceptedDb ?d cdoc ?a)"
    using h c by (simp add: submitPlay_convex_eq)
  have g: "db_get (acceptedDb ?d cdoc ?a) i = Some ?doc'"
    using db_get_acceptedDb[of ?d ?a cdoc] h a by simp
  have l: "length (roundPlaysOf (acceptedDb ?d cdoc ?a) i Round3) = 4"
    using h a by (simp add: roundPlaysOf_acceptedDb)
  from round3_closes_convex[OF inv _ _ a] h eq g l
  show "\<exists>doc' ps d' g.
          submitPlay_convex ?d i uid cv s now = (C_Accepted doc' ps, d') \<and>
          db_get d' i = Some doc' \<and> length (roundPlaysOf d' i Round3) = 4 \<and>
          game_winner doc' = Some g \<and> is_complete doc' \<and>
          2 \<le> length (filter (\<lambda>r. round_winner r doc' = Some g) [Round1, Round2, Round3])"
    by blast
qed

theorem three_resolved_rounds_decide_the_series_witness:
  "length tiedRound = 4 \<and>
   (\<exists>g. determineGameWinner (\<lambda>_. tiedRound) stateAB = Some (Some g) \<and>
        2 \<le> length (filter (\<lambda>r. determineRoundWinner tiedRound stateAB = Some g)
                       [Round1, Round2, Round3])) \<and>
   run elevenPlays ''m'' = Some (the (run elevenPlays ''m'')) \<and>
   currentRound (state (the (run elevenPlays ''m''))) = Round3 \<and>
   length (rounds (the (run elevenPlays ''m'')) Round3) = 3 \<and>
   CardSchema_parse (Some 9) ''hearts'' \<noteq> None \<and>
   ''D'' = currentTurn (state (the (run elevenPlays ''m''))) \<and>
   (\<exists>m' g. submitPlay (run elevenPlays) ''m'' ''D'' (Some 9) ''hearts'' ''p12'' 12 =
             (Accepted m', (run elevenPlays)(''m'' \<mapsto> m')) \<and>
          length (rounds m' Round3) = 4 \<and>
          winner (state m') = Some g \<and> gameComplete (state m') = Some True \<and>
          2 \<le> length (filter (\<lambda>r. roundWinners (state m') r = Some g) [Round1, Round2, Round3])) \<and>
   db_get (convex_run elevenPlaysC) 0 = Some (the (db_get (convex_run elevenPlaysC) 0)) \<and>
   current_turn (the (db_get (convex_run elevenPlaysC) 0)) = ''D'' \<and>
   round1_winner (the (db_get (convex_run elevenPlaysC) 0)) = Some Team1 \<and>
   round2_winner (the (db_get (convex_run elevenPlaysC) 0)) = Some Team1 \<and>
   length (roundPlaysOf (convex_run elevenPlaysC) 0 Round3) = 3 \<and>
   (\<exists>k d' doc' w3 g.
       plays_create (convex_run elevenPlaysC) twelfthPlayDoc = Inr (k, d') \<and>
       db_get d' 0 = Some doc' \<and>
       plays_determineRoundWinner
         (roundPlaysOf (convex_run elevenPlaysC) 0 Round3 @ [twelfthPlayDoc])
         (the (db_get (convex_run elevenPlaysC) 0)) = Some w3 \<and>
       game_winner doc' = Some g \<and> is_complete doc' \<and>
       2 \<le> length (filter (\<lambda>w. w = g) [Team1, Team1, w3])) \<and>
   current_round (the (db_get (convex_run elevenPlaysC) 0)) = Round3 \<and>
   (\<exists>doc' ps d' g.
       submitPlay_convex (convex_run elevenPlaysC) 0 ''D'' (Some 9) ''hearts'' 12 =
         (C_Accepted doc' ps, d') \<and>
       db_get d' 0 = Some doc' \<and> length (roundPlaysOf d' 0 Round3) = 4 \<and>
       game_winner doc' = Some g \<and> is_complete doc' \<and>
       2 \<le> length (filter (\<lambda>r. round_winner r doc' = Some g) [Round1, Round2, Round3]))"
proof -
  note T = three_resolved_rounds_decide_the_series
    [where rs = "\<lambda>_. tiedRound" and st = stateAB and evs = elevenPlays and mid = "''m''"
       and m = "the (run elevenPlays ''m'')" and cv = "Some 9" and s = "''hearts''"
       and uid = "''D''" and pid = "''p12''" and now = 12
       and d = "convex_run elevenPlaysC" and args = twelfthPlayDoc
       and doc = "the (db_get (convex_run elevenPlaysC) 0)" and ?w1.0 = Team1 and ?w2.0 = Team1
       and cevs = elevenPlaysC and i = 0 and cdoc = "the (db_get (convex_run elevenPlaysC) 0)"]
  have a: "match_id twelfthPlayDoc = 0" "user_id twelfthPlayDoc = ''D''"
    "play_round twelfthPlayDoc = Round3"
    by (simp_all add: twelfthPlayDoc_def)
  have h1: "length tiedRound = 4" by (simp add: tiedRound_def)
  have h2: "run elevenPlays ''m'' = Some (the (run elevenPlays ''m''))"
    using run_elevenPlays_facts(1) by simp
  have h3: "CardSchema_parse (Some 9) ''hearts'' \<noteq> None"
    by (simp add: CardSchema_parse_def suits_def)
  have h4: "db_get (convex_run elevenPlaysC) 0 = Some (the (db_get (convex_run elevenPlaysC) 0))"
    using convex_run_elevenPlaysC_facts(1) by simp
  note f = run_elevenPlays_facts(2-4) convex_run_elevenPlaysC_facts(2-6)
  have c1: "\<exists>g. determineGameWinner (\<lambda>_. tiedRound) stateAB = Some (Some g) \<and>
        2 \<le> length (filter (\<lambda>r. determineRoundWinner tiedRound stateAB = Some g)
                       [Round1, Round2, Round3])"
    using T h1 by blast
  have c2: "\<exists>m' g. submitPlay (run elevenPlays) ''m'' ''D'' (Some 9) ''hearts'' ''p12'' 12 =
             (Accepted m', (run elevenPlays)(''m'' \<mapsto> m')) \<and>
          length (rounds m' Round3) = 4 \<and>
          winner (state m') = Some g \<and> gameComplete (state m') = Some True \<and>
          2 \<le> length (filter (\<lambda>r. roundWinners (state m') r = Some g) [Round1, Round2, Round3])"
    using T h2 h3 f(1-3) by simp
  have c3: "\<exists>k d' doc' w3 g.
       plays_create (convex_run elevenPlaysC) twelfthPlayDoc = Inr (k, d') \<and>
       db_get d' 0 = Some doc' \<and>
       plays_determineRoundWinner
         (roundPlaysOf (convex_run elevenPlaysC) 0 Round3 @ [twelfthPlayDoc])
         (the (db_get (convex_run elevenPlaysC) 0)) = Some w3 \<and>
       game_winner doc' = Some g \<and> is_complete doc' \<and>
       2 \<le> length (filter (\<lambda>w. w = g) [Team1, Team1, w3])"
    using T h4 f(4-8) a by simp
  have c4: "\<exists>doc' ps d' g.
       submitPlay_convex (convex_run elevenPlaysC) 0 ''D'' (Some 9) ''hearts'' 12 =
         (C_Accepted doc' ps, d') \<and>
       db_get d' 0 = Some doc' \<and> length (roundPlaysOf d' 0 Round3) = 4 \<and>
       game_winner doc' = Some g \<and> is_complete doc' \<and>
       2 \<le> length (filter (\<lambda>r. round_winner r doc' = Some g) [Round1, Round2, Round3])"
    using T h4 h3 f(4-8) by simp
  show ?thesis
    using h1 h2 h3 h4 f c1 c2 c3 c4 by simp
qed

text \<open>
  C8. A play request that fails a precondition (unknown match, invalid card, wrong turn)
  changes nothing: no play is appended, the turn is not advanced, and round winners,
  current round, game winner and completion flag stay as they were. The table (the
  database) after the request is the table before it, so every field of every match is
  unchanged. First and third conjunct: the answer is the rejection of the first failed
  check, in the order of the route. Second and fourth: whenever the answer is not an
  accepted play, the table is unchanged. Fifth: the plays mutation throws on its own two
  checks, and a mutation that throws commits nothing.
\<close>

theorem rejected_play_changes_nothing:
  "((ms mid = None \<or> CardSchema_parse cv s = None \<or>
     (\<exists>m. ms mid = Some m \<and> currentTurn (state m) \<noteq> uid)) \<longrightarrow>
      submitPlay ms mid uid cv s pid now =
        (if ms mid = None then MatchNotFound
         else if CardSchema_parse cv s = None then ZodError else NotYourTurn, ms)) \<and>
   ((\<forall>m'. fst (submitPlay ms mid uid cv s pid now) \<noteq> Accepted m') \<longrightarrow>
      snd (submitPlay ms mid uid cv s pid now) = ms) \<and>
   ((db_get d i = None \<or> CardSchema_parse cv s = None \<or>
     (\<exists>doc. db_get d i = Some doc \<and> current_turn doc \<noteq> uid)) \<longrightarrow>
      submitPlay_convex d i uid cv s now =
        (if db_get d i = None then C_MatchNotFound
         else if CardSchema_parse cv s = None then C_ZodError else C_NotYourTurn, d)) \<and>
   ((\<forall>doc' ps. fst (submitPlay_convex d i uid cv s now) \<noteq> C_Accepted doc' ps) \<longrightarrow>
      snd (submitPlay_convex d i uid cv s now) = d) \<and>
   ((db_get d (match_id args) = None \<or>
     (\<exists>doc. db_get d (match_id args) = Some doc \<and> current_turn doc \<noteq> user_id args)) \<longrightarrow>
      plays_create d args =
        Inl (if db_get d (match_id args) = None then Match_not_found else Not_your_turn))"
proof (intro conjI impI)
  assume "ms mid = None \<or> CardSchema_parse cv s = None \<or>
     (\<exists>m. ms mid = Some m \<and> currentTurn (state m) \<noteq> uid)"
  then show "submitPlay ms mid uid cv s pid now =
        (if ms mid = None then MatchNotFound
         else if CardSchema_parse cv s = None then ZodError else NotYourTurn, ms)"
    by (auto simp: submitPlay_eq split: option.splits)
next
  assume "\<forall>m'. fst (submitPlay ms mid uid cv s pid now) \<noteq> Accepted m'"
  then show "snd (submitPlay ms mid uid cv s pid now) = ms"
    by (auto simp: submitPlay_eq split: option.splits if_splits)
next
  assume "db_get d i = None \<or> CardSchema_parse cv s = None \<or>
     (\<exists>doc. db_get d i = Some doc \<and> current_turn doc \<noteq> uid)"
  then show "submitPlay_convex d i uid cv s now =
        (if db_get d i = None then C_MatchNotFound
         else if CardSchema_parse cv s = None then C_ZodError else C_NotYourTurn, d)"
    by (auto simp: submitPlay_convex_eq split: option.splits)
next
  assume "\<forall>doc' ps. fst (submitPlay_convex d i uid cv s now) \<noteq> C_Accepted doc' ps"
  then show "snd (submitPlay_convex d i uid cv s now) = d"
    by (auto simp: submitPlay_convex_eq split: option.splits if_splits)
next
  assume "db_get d (match_id args) = None \<or>
     (\<exists>doc. db_get d (match_id args) = Some doc \<and> current_turn doc \<noteq> user_id args)"
  then show "plays_create d args =
        Inl (if db_get d (match_id args) = None then Match_not_found else Not_your_turn)"
    by (auto simp: plays_create_def)
qed

theorem rejected_play_changes_nothing_witness:
  "run sweep ''m'' = Some (the (run sweep ''m'')) \<and>
   currentTurn (state (the (run sweep ''m''))) \<noteq> ''D'' \<and>
   submitPlay (run sweep) ''m'' ''D'' (Some 5) ''hearts'' ''p9'' 9 = (NotYourTurn, run sweep) \<and>
   snd (submitPlay (run sweep) ''m'' ''D'' (Some 5) ''hearts'' ''p9'' 9) = run sweep \<and>
   submitPlay (run sweep) ''m'' ''A'' (Some 14) ''hearts'' ''p9'' 9 = (ZodError, run sweep) \<and>
   submitPlay (run sweep) ''x'' ''A'' (Some 5) ''hearts'' ''p9'' 9 = (MatchNotFound, run sweep) \<and>
   db_get (convex_run sweepC) 0 = Some (the (db_get (convex_run sweepC) 0)) \<and>
   current_turn (the (db_get (convex_run sweepC) 0)) \<noteq> ''D'' \<and>
   submitPlay_convex (convex_run sweepC) 0 ''D'' (Some 5) ''hearts'' 9 =
     (C_NotYourTurn, convex_run sweepC) \<and>
   snd (submitPlay_convex (convex_run sweepC) 0 ''D'' (Some 5) ''hearts'' 9) = convex_run sweepC \<and>
   plays_create (convex_run sweepC) twelfthPlayDoc = Inl Not_your_turn"
proof -
  note T = rejected_play_changes_nothing
  note T1 = T[THEN conjunct1, rule_format]
  note T2 = T[THEN conjunct2, THEN conjunct1, rule_format]
  note T3 = T[THEN conjunct2, THEN conjunct2, THEN conjunct1, rule_format]
  note T4 = T[THEN conjunct2, THEN conjunct2, THEN conjunct2, THEN conjunct1, rule_format]
  note T5 = T[THEN conjunct2, THEN conjunct2, THEN conjunct2, THEN conjunct2, rule_format]
  have n1: "run sweep ''m'' \<noteq> None" by (rule run_sweep_facts(1))
  have h1: "run sweep ''m'' = Some (the (run sweep ''m''))"
    using n1 by (rule option.collapse[symmetric, OF _]) 
  have h2: "currentTurn (state (the (run sweep ''m''))) \<noteq> ''D''"
    by (simp add: run_sweep_facts(3))
  have h3: "CardSchema_parse (Some 14) ''hearts'' = None" "CardSchema_parse (Some 5) ''hearts'' \<noteq> None"
    by (simp_all add: CardSchema_parse_def suits_def)
  have h4: "run sweep ''x'' = None"
    by (simp add: sweep_def eval_defs)
  have n5: "db_get (convex_run sweepC) 0 \<noteq> None" by (rule convex_run_sweepC_facts(1))
  have h5: "db_get (convex_run sweepC) 0 = Some (the (db_get (convex_run sweepC) 0))"
    using n5 by (rule option.collapse[symmetric, OF _])
  have h6: "current_turn (the (db_get (convex_run sweepC) 0)) \<noteq> ''D''"
    by (simp add: convex_run_sweepC_facts(3))
  have a: "match_id twelfthPlayDoc = 0" "user_id twelfthPlayDoc = ''D''"
    by (simp_all add: twelfthPlayDoc_def)
  have d1: "run sweep ''m'' = None \<or> CardSchema_parse (Some 5) ''hearts'' = None \<or>
     (\<exists>m. run sweep ''m'' = Some m \<and> currentTurn (state m) \<noteq> ''D'')"
    using h1 h2 by blast
  have c1: "submitPlay (run sweep) ''m'' ''D'' (Some 5) ''hearts'' ''p9'' 9 = (NotYourTurn, run sweep)"
    using T1[where ms = "run sweep" and mid = "''m''" and uid = "''D''" and cv = "Some 5"
        and s = "''hearts''" and pid = "''p9''" and now = 9, OF d1] n1 h3(2) by simp
  have "fst (submitPlay (run sweep) ''m'' ''D'' (Some 5) ''hearts'' ''p9'' 9) \<noteq> Accepted m'" for m'
    by (simp add: c1)
  then have c2: "snd (submitPlay (run sweep) ''m'' ''D'' (Some 5) ''hearts'' ''p9'' 9) = run sweep"
    by (rule T2)
  have d3: "run sweep ''m'' = None \<or> CardSchema_parse (Some 14) ''hearts'' = None \<or>
     (\<exists>m. run sweep ''m'' = Some m \<and> currentTurn (state m) \<noteq> ''A'')"
    using h3(1) by blast
  have c3: "submitPlay (run sweep) ''m'' ''A'' (Some 14) ''hearts'' ''p9'' 9 = (ZodError, run sweep)"
    using T1[where ms = "run sweep" and mid = "''m''" and uid = "''A''" and cv = "Some 14"
        and s = "''hearts''" and pid = "''p9''" and now = 9, OF d3] n1 h3(1) by simp
  have d4: "run sweep ''x'' = None \<or> CardSchema_parse (Some 5) ''hearts'' = None \<or>
     (\<exists>m. run sweep ''x'' = Some m \<and> currentTurn (state m) \<noteq> ''A'')"
    using h4 by blast
  have c4: "submitPlay (run sweep) ''x'' ''A'' (Some 5) ''hearts'' ''p9'' 9 = (MatchNotFound, run sweep)"
    using T1[where ms = "run sweep" and mid = "''x''" and uid = "''A''" and cv = "Some 5"
        and s = "''hearts''" and pid = "''p9''" and now = 9, OF d4] h4 by simp
  have d5: "db_get (convex_run sweepC) 0 = None \<or> CardSchema_parse (Some 5) ''hearts'' = None \<or>
     (\<exists>doc. db_get (convex_run sweepC) 0 = Some doc \<and> current_turn doc \<noteq> ''D'')"
    using h5 h6 by blast
  have c5: "submitPlay_convex (convex_run sweepC) 0 ''D'' (Some 5) ''hearts'' 9 =
     (C_NotYourTurn, convex_run sweepC)"
    using T3[where d = "convex_run sweepC" and i = 0 and uid = "''D''" and cv = "Some 5"
        and s = "''hearts''" and now = 9, OF d5] n5 h3(2) by simp
  have "fst (submitPlay_convex (convex_run sweepC) 0 ''D'' (Some 5) ''hearts'' 9) \<noteq> C_Accepted doc' ps"
    for doc' ps
    by (simp add: c5)
  then have c6: "snd (submitPlay_convex (convex_run sweepC) 0 ''D'' (Some 5) ''hearts'' 9) = convex_run sweepC"
    by (rule T4)
  have d7: "db_get (convex_run sweepC) (match_id twelfthPlayDoc) = None \<or>
     (\<exists>doc. db_get (convex_run sweepC) (match_id twelfthPlayDoc) = Some doc \<and>
            current_turn doc \<noteq> user_id twelfthPlayDoc)"
    using h5 h6 unfolding a by blast
  have c7: "plays_create (convex_run sweepC) twelfthPlayDoc = Inl Not_your_turn"
    using T5[where d = "convex_run sweepC" and args = twelfthPlayDoc, OF d7] n5 unfolding a by simp
  show ?thesis
    by (intro conjI) (fact h1 h2 h5 h6 c1 c2 c3 c4 c5 c6 c7)+
qed

text \<open>
  C9. A submitted card is accepted exactly when its value is between 1 and 13 and its suit
  is one of hearts, diamonds, clubs, spades; any other card, value 14 for one, is
  rejected with the validation error before any state is changed, as an answer of the
  route. The value is the result of \<^verbatim>\<open>parseInt\<close>, \<open>None\<close> being \<^verbatim>\<open>NaN\<close>.
  Conjuncts one to three: \<^verbatim>\<open>CardSchema\<close> passes exactly these cards, the validated card
  carries the submitted value and suit, and 14 is refused. Four and five: on an existing
  match an invalid card is answered with the \<^verbatim>\<open>ZodError\<close> and the table is returned as
  it was. Six to eight are the play route of the in-memory service on an existing match:
  it answers the \<^verbatim>\<open>ZodError\<close> if and only if the card is not such a card; a valid card
  from the player whose turn it is is accepted and recorded, with that value and suit, as
  the last play of the current round; a valid card from any other player gets past
  validation and is answered with the turn rejection. Nine to eleven are the same for the
  play route over Convex.
\<close>

theorem card_accepted_iff_value_and_suit_valid:
  "(CardSchema_parse v s \<noteq> None) =
     (\<exists>n. v = Some n \<and> 1 \<le> n \<and> n \<le> 13 \<and>
          s \<in> {''hearts'', ''diamonds'', ''clubs'', ''spades''}) \<and>
   (CardSchema_parse v s = Some c \<longrightarrow> v = Some (cardValue c) \<and> s = cardSuit c) \<and>
   CardSchema_parse (Some 14) s = None \<and>
   (ms mid \<noteq> None \<and> CardSchema_parse v s = None \<longrightarrow>
      submitPlay ms mid uid v s pid now = (ZodError, ms)) \<and>
   (db_get d i \<noteq> None \<and> CardSchema_parse v s = None \<longrightarrow>
      submitPlay_convex d i uid v s now = (C_ZodError, d)) \<and>
   (ms mid = Some m \<longrightarrow>
      (fst (submitPlay ms mid uid v s pid now) = ZodError) =
        (\<not> (\<exists>n. v = Some n \<and> 1 \<le> n \<and> n \<le> 13 \<and>
                 s \<in> {''hearts'', ''diamonds'', ''clubs'', ''spades''}))) \<and>
   (ms mid = Some m \<and> currentTurn (state m) = uid \<and> 1 \<le> k \<and> k \<le> 13 \<and>
    s \<in> {''hearts'', ''diamonds'', ''clubs'', ''spades''} \<longrightarrow>
      (\<exists>m'. submitPlay ms mid uid (Some k) s pid now = (Accepted m', ms(mid \<mapsto> m')) \<and>
            rounds m' (currentRound (state m)) =
              rounds m (currentRound (state m)) @
                [\<lparr>playId = pid, userId = uid, timestamp = now,
                  playCard = \<lparr>cardValue = k, cardSuit = s\<rparr>\<rparr>])) \<and>
   (ms mid = Some m \<and> currentTurn (state m) \<noteq> uid \<and> 1 \<le> k \<and> k \<le> 13 \<and>
    s \<in> {''hearts'', ''diamonds'', ''clubs'', ''spades''} \<longrightarrow>
      submitPlay ms mid uid (Some k) s pid now = (NotYourTurn, ms)) \<and>
   (db_get d i = Some doc \<longrightarrow>
      (fst (submitPlay_convex d i uid v s now) = C_ZodError) =
        (\<not> (\<exists>n. v = Some n \<and> 1 \<le> n \<and> n \<le> 13 \<and>
                 s \<in> {''hearts'', ''diamonds'', ''clubs'', ''spades''}))) \<and>
   (db_get d i = Some doc \<and> current_turn doc = uid \<and> 1 \<le> k \<and> k \<le> 13 \<and>
    s \<in> {''hearts'', ''diamonds'', ''clubs'', ''spades''} \<longrightarrow>
      (\<exists>doc' ps d'. submitPlay_convex d i uid (Some k) s now = (C_Accepted doc' ps, d') \<and>
            plays_table d' = plays_table d @
              [\<lparr>match_id = i, user_id = uid, play_round = current_round doc, play_timestamp = now,
                card_value = k, card_suit = s\<rparr>])) \<and>
   (db_get d i = Some doc \<and> current_turn doc \<noteq> uid \<and> 1 \<le> k \<and> k \<le> 13 \<and>
    s \<in> {''hearts'', ''diamonds'', ''clubs'', ''spades''} \<longrightarrow>
      submitPlay_convex d i uid (Some k) s now = (C_NotYourTurn, d))"
proof -
  have valid: "(CardSchema_parse v s \<noteq> None) =
     (\<exists>n. v = Some n \<and> 1 \<le> n \<and> n \<le> 13 \<and>
          s \<in> {''hearts'', ''diamonds'', ''clubs'', ''spades''})" for v s
    by (cases v) (auto simp: CardSchema_parse_def suits_def)
  have invalid: "(CardSchema_parse v s = None) =
     (\<not> (\<exists>n. v = Some n \<and> 1 \<le> n \<and> n \<le> 13 \<and>
          s \<in> {''hearts'', ''diamonds'', ''clubs'', ''spades''}))" for v s
    using valid[of v s] by blast
  have parse: "CardSchema_parse (Some k) s = Some \<lparr>cardValue = k, cardSuit = s\<rparr>"
    if "1 \<le> k" "k \<le> 13" "s \<in> {''hearts'', ''diamonds'', ''clubs'', ''spades''}" for k s
    using that by (auto simp: CardSchema_parse_def suits_def)
  show ?thesis
  proof (intro conjI impI)
    show "(CardSchema_parse v s \<noteq> None) =
       (\<exists>n. v = Some n \<and> 1 \<le> n \<and> n \<le> 13 \<and>
            s \<in> {''hearts'', ''diamonds'', ''clubs'', ''spades''})"
      by (rule valid)
  next
    assume "CardSchema_parse v s = Some c"
    then show "v = Some (cardValue c)" "s = cardSuit c"
      by (cases v; auto simp: CardSchema_parse_def split: if_splits)+
  next
    show "CardSchema_parse (Some 14) s = None"
      by (simp add: CardSchema_parse_def)
  next
    assume "ms mid \<noteq> None \<and> CardSchema_parse v s = None"
    then show "submitPlay ms mid uid v s pid now = (ZodError, ms)"
      by (auto simp: submitPlay_eq)
  next
    assume "db_get d i \<noteq> None \<and> CardSchema_parse v s = None"
    then show "submitPlay_convex d i uid v s now = (C_ZodError, d)"
      by (auto simp: submitPlay_convex_eq)
  next
    assume m: "ms mid = Some m"
    have "(fst (submitPlay ms mid uid v s pid now) = ZodError) = (CardSchema_parse v s = None)"
      using m by (cases "CardSchema_parse v s") (simp_all add: submitPlay_eq)
    also note invalid[of v s]
    finally show "(fst (submitPlay ms mid uid v s pid now) = ZodError) =
        (\<not> (\<exists>n. v = Some n \<and> 1 \<le> n \<and> n \<le> 13 \<and>
                 s \<in> {''hearts'', ''diamonds'', ''clubs'', ''spades''}))" .
  next
    assume h: "ms mid = Some m \<and> currentTurn (state m) = uid \<and> 1 \<le> k \<and> k \<le> 13 \<and>
      s \<in> {''hearts'', ''diamonds'', ''clubs'', ''spades''}"
    let ?p = "\<lparr>playId = pid, userId = uid, timestamp = now,
                  playCard = \<lparr>cardValue = k, cardSuit = s\<rparr>\<rparr>"
    have p: "CardSchema_parse (Some k) s = Some \<lparr>cardValue = k, cardSuit = s\<rparr>"
      using h parse by blast
    have "submitPlay ms mid uid (Some k) s pid now =
            (Accepted (acceptedMatch m ?p), ms(mid \<mapsto> acceptedMatch m ?p))"
      using h p by (simp add: submitPlay_eq)
    moreover have "rounds (acceptedMatch m ?p) (currentRound (state m)) =
                     rounds m (currentRound (state m)) @ [?p]"
      by (simp add: rounds_acceptedMatch)
    ultimately show "\<exists>m'. submitPlay ms mid uid (Some k) s pid now = (Accepted m', ms(mid \<mapsto> m')) \<and>
            rounds m' (currentRound (state m)) = rounds m (currentRound (state m)) @ [?p]"
      by blast
  next
    assume h: "ms mid = Some m \<and> currentTurn (state m) \<noteq> uid \<and> 1 \<le> k \<and> k \<le> 13 \<and>
      s \<in> {''hearts'', ''diamonds'', ''clubs'', ''spades''}"
    have p: "CardSchema_parse (Some k) s = Some \<lparr>cardValue = k, cardSuit = s\<rparr>"
      using h parse by blast
    show "submitPlay ms mid uid (Some k) s pid now = (NotYourTurn, ms)"
      using h p by (simp add: submitPlay_eq)
  next
    assume m: "db_get d i = Some doc"
    have "(fst (submitPlay_convex d i uid v s now) = C_ZodError) = (CardSchema_parse v s = None)"
      using m by (cases "CardSchema_parse v s") (simp_all add: submitPlay_convex_eq)
    also note invalid[of v s]
    finally show "(fst (submitPlay_convex d i uid v s now) = C_ZodError) =
        (\<not> (\<exists>n. v = Some n \<and> 1 \<le> n \<and> n \<le> 13 \<and>
                 s \<in> {''hearts'', ''diamonds'', ''clubs'', ''spades''}))" .
  next
    assume h: "db_get d i = Some doc \<and> current_turn doc = uid \<and> 1 \<le> k \<and> k \<le> 13 \<and>
      s \<in> {''hearts'', ''diamonds'', ''clubs'', ''spades''}"
    let ?c = "\<lparr>cardValue = k, cardSuit = s\<rparr>"
    let ?a = "newPlay i uid doc now ?c"
    have p: "CardSchema_parse (Some k) s = Some ?c"
      using h parse by blast
    have "submitPlay_convex d i uid (Some k) s now =
            (C_Accepted (patchedDoc doc ?a (roundPlaysOf d i (current_round doc) @ [?a]))
               (plays_getByMatch (acceptedDb d doc ?a) i),
             acceptedDb d doc ?a)"
      using h p by (simp add: submitPlay_convex_eq)
    moreover have "plays_table (acceptedDb d doc ?a) = plays_table d @
              [\<lparr>match_id = i, user_id = uid, play_round = current_round doc, play_timestamp = now,
                card_value = k, card_suit = s\<rparr>]"
      by (simp add: acceptedDb_def newPlay_def)
    ultimately show "\<exists>doc' ps d'. submitPlay_convex d i uid (Some k) s now = (C_Accepted doc' ps, d') \<and>
            plays_table d' = plays_table d @
              [\<lparr>match_id = i, user_id = uid, play_round = current_round doc, play_timestamp = now,
                card_value = k, card_suit = s\<rparr>]"
      by blast
  next
    assume h: "db_get d i = Some doc \<and> current_turn doc \<noteq> uid \<and> 1 \<le> k \<and> k \<le> 13 \<and>
      s \<in> {''hearts'', ''diamonds'', ''clubs'', ''spades''}"
    have p: "CardSchema_parse (Some k) s = Some \<lparr>cardValue = k, cardSuit = s\<rparr>"
      using h parse by blast
    show "submitPlay_convex d i uid (Some k) s now = (C_NotYourTurn, d)"
      using h p by (simp add: submitPlay_convex_eq)
  qed
qed

theorem card_accepted_iff_value_and_suit_valid_witness:
  "CardSchema_parse (Some 13) ''spades'' =
     Some \<lparr>cardValue = 13, cardSuit = ''spades''\<rparr> \<and>
   Some (13 :: int) = Some (cardValue \<lparr>cardValue = 13, cardSuit = ''spades''\<rparr>) \<and>
   ''spades'' = cardSuit \<lparr>cardValue = 13, cardSuit = ''spades''\<rparr> \<and>
   run sweep ''m'' \<noteq> None \<and> CardSchema_parse (Some 14) ''spades'' = None \<and>
   submitPlay (run sweep) ''m'' ''A'' (Some 14) ''spades'' ''p9'' 9 = (ZodError, run sweep) \<and>
   db_get (convex_run sweepC) 0 \<noteq> None \<and> CardSchema_parse (Some 0) ''spades'' = None \<and>
   submitPlay_convex (convex_run sweepC) 0 ''A'' (Some 0) ''spades'' 9 =
     (C_ZodError, convex_run sweepC) \<and>
   CardSchema_parse (Some 5) ''stars'' = None \<and> CardSchema_parse None ''hearts'' = None \<and>
   run sweep ''m'' = Some (the (run sweep ''m'')) \<and>
   fst (submitPlay (run sweep) ''m'' ''A'' (Some 1) ''clubs'' ''p9'' 9) \<noteq> ZodError \<and>
   fst (submitPlay (run sweep) ''m'' ''A'' (Some 14) ''clubs'' ''p9'' 9) = ZodError \<and>
   currentTurn (state (the (run sweep ''m''))) = ''A'' \<and>
   (1 :: int) \<le> 1 \<and> (1 :: int) \<le> 13 \<and>
   ''clubs'' \<in> {''hearts'', ''diamonds'', ''clubs'', ''spades''} \<and>
   (\<exists>m'. submitPlay (run sweep) ''m'' ''A'' (Some 1) ''clubs'' ''p9'' 9 =
           (Accepted m', (run sweep)(''m'' \<mapsto> m')) \<and>
         rounds m' (currentRound (state (the (run sweep ''m'')))) =
           rounds (the (run sweep ''m'')) (currentRound (state (the (run sweep ''m'')))) @
             [\<lparr>playId = ''p9'', userId = ''A'', timestamp = 9,
               playCard = \<lparr>cardValue = 1, cardSuit = ''clubs''\<rparr>\<rparr>]) \<and>
   currentTurn (state (the (run sweep ''m''))) \<noteq> ''D'' \<and>
   submitPlay (run sweep) ''m'' ''D'' (Some 1) ''clubs'' ''p9'' 9 = (NotYourTurn, run sweep) \<and>
   db_get (convex_run sweepC) 0 = Some (the (db_get (convex_run sweepC) 0)) \<and>
   fst (submitPlay_convex (convex_run sweepC) 0 ''A'' (Some 1) ''clubs'' 9) \<noteq> C_ZodError \<and>
   fst (submitPlay_convex (convex_run sweepC) 0 ''A'' (Some 14) ''clubs'' 9) = C_ZodError \<and>
   current_turn (the (db_get (convex_run sweepC) 0)) = ''A'' \<and>
   (\<exists>doc' ps d'. submitPlay_convex (convex_run sweepC) 0 ''A'' (Some 1) ''clubs'' 9 =
           (C_Accepted doc' ps, d') \<and>
         plays_table d' = plays_table (convex_run sweepC) @
           [\<lparr>match_id = 0, user_id = ''A'',
             play_round = current_round (the (db_get (convex_run sweepC) 0)),
             play_timestamp = 9, card_value = 1, card_suit = ''clubs''\<rparr>]) \<and>
   current_turn (the (db_get (convex_run sweepC) 0)) \<noteq> ''D'' \<and>
   submitPlay_convex (convex_run sweepC) 0 ''D'' (Some 1) ''clubs'' 9 =
     (C_NotYourTurn, convex_run sweepC)"
proof -
  note T = card_accepted_iff_value_and_suit_valid
  note T2 = T[THEN conjunct2, THEN conjunct1, rule_format]
  note T4 = T[THEN conjunct2, THEN conjunct2, THEN conjunct2, THEN conjunct1, rule_format]
  note T5 = T[THEN conjunct2, THEN conjunct2, THEN conjunct2, THEN conjunct2, THEN conjunct1, rule_format]
  note T6 = T[THEN conjunct2, THEN conjunct2, THEN conjunct2, THEN conjunct2, THEN conjunct2, THEN conjunct1, rule_format]
  note T7 = T[THEN conjunct2, THEN conjunct2, THEN conjunct2, THEN conjunct2, THEN conjunct2, THEN conjunct2, THEN conjunct1, rule_format]
  note T8 = T[THEN conjunct2, THEN conjunct2, THEN conjunct2, THEN conjunct2, THEN conjunct2, THEN conjunct2, THEN conjunct2, THEN conjunct1, rule_format]
  note T9 = T[THEN conjunct2, THEN conjunct2, THEN conjunct2, THEN conjunct2, THEN conjunct2, THEN conjunct2, THEN conjunct2, THEN conjunct2, THEN conjunct1, rule_format]
  note T10 = T[THEN conjunct2, THEN conjunct2, THEN conjunct2, THEN conjunct2, THEN conjunct2, THEN conjunct2, THEN conjunct2, THEN conjunct2, THEN conjunct2, THEN conjunct1, rule_format]
  note T11 = T[THEN conjunct2, THEN conjunct2, THEN conjunct2, THEN conjunct2, THEN conjunct2, THEN conjunct2, THEN conjunct2, THEN conjunct2, THEN conjunct2, THEN conjunct2, rule_format]
  let ?m = "the (run sweep ''m'')"
  let ?doc = "the (db_get (convex_run sweepC) 0)"
  have h1: "CardSchema_parse (Some 13) ''spades'' = Some \<lparr>cardValue = 13, cardSuit = ''spades''\<rparr>"
    by (simp add: CardSchema_parse_def suits_def)
  have h2: "CardSchema_parse (Some 14) ''spades'' = None" "CardSchema_parse (Some 0) ''spades'' = None"
    "CardSchema_parse (Some 5) ''stars'' = None" "CardSchema_parse None ''hearts'' = None"
    by (simp_all add: CardSchema_parse_def suits_def)
  have c1: "Some (13 :: int) = Some (cardValue \<lparr>cardValue = 13, cardSuit = ''spades''\<rparr>)"
    "''spades'' = cardSuit \<lparr>cardValue = 13, cardSuit = ''spades''\<rparr>"
    using T2[where v = "Some 13" and s = "''spades''", OF h1] by blast+
  have c2: "submitPlay (run sweep) ''m'' ''A'' (Some 14) ''spades'' ''p9'' 9 = (ZodError, run sweep)"
    using T4[where ms = "run sweep" and mid = "''m''" and v = "Some 14" and s = "''spades''"]
      run_sweep_facts(1) h2(1) by blast
  have c3: "submitPlay_convex (convex_run sweepC) 0 ''A'' (Some 0) ''spades'' 9 =
     (C_ZodError, convex_run sweepC)"
    using T5[where d = "convex_run sweepC" and i = 0 and v = "Some 0" and s = "''spades''"]
      convex_run_sweepC_facts(1) h2(2) by blast
  have k: "(1 :: int) \<le> 1" "(1 :: int) \<le> 13"
    "''clubs'' \<in> {''hearts'', ''diamonds'', ''clubs'', ''spades''}"
    by simp_all
  have m1: "run sweep ''m'' = Some ?m"
    using run_sweep_facts(1) by (rule option.collapse[symmetric, OF _])
  have tA: "currentTurn (state ?m) = ''A''" by (rule run_sweep_facts(3))
  have tD: "currentTurn (state ?m) \<noteq> ''D''" by (simp add: tA)
  have c6a: "fst (submitPlay (run sweep) ''m'' ''A'' (Some 1) ''clubs'' ''p9'' 9) \<noteq> ZodError"
    using T6[where ms = "run sweep" and mid = "''m''" and m = ?m and uid = "''A''"
        and v = "Some 1" and s = "''clubs''" and pid = "''p9''" and now = 9, OF m1]
    by simp
  have c6b: "fst (submitPlay (run sweep) ''m'' ''A'' (Some 14) ''clubs'' ''p9'' 9) = ZodError"
    using T6[where ms = "run sweep" and mid = "''m''" and m = ?m and uid = "''A''"
        and v = "Some 14" and s = "''clubs''" and pid = "''p9''" and now = 9, OF m1]
    by simp
  note c7 = T7[where ms = "run sweep" and mid = "''m''" and m = ?m and uid = "''A''"
      and k = 1 and s = "''clubs''" and pid = "''p9''" and now = 9,
      OF conjI[OF m1 conjI[OF tA conjI[OF k(1) conjI[OF k(2) k(3)]]]]]
  note c8 = T8[where ms = "run sweep" and mid = "''m''" and m = ?m and uid = "''D''"
      and k = 1 and s = "''clubs''" and pid = "''p9''" and now = 9,
      OF conjI[OF m1 conjI[OF tD conjI[OF k(1) conjI[OF k(2) k(3)]]]]]
  have g1: "db_get (convex_run sweepC) 0 = Some ?doc"
    using convex_run_sweepC_facts(1) by (rule option.collapse[symmetric, OF _])
  have uA: "current_turn ?doc = ''A''" by (rule convex_run_sweepC_facts(3))
  have uD: "current_turn ?doc \<noteq> ''D''" by (simp add: uA)
  have c9a: "fst (submitPlay_convex (convex_run sweepC) 0 ''A'' (Some 1) ''clubs'' 9) \<noteq> C_ZodError"
    using T9[where d = "convex_run sweepC" and i = 0 and doc = ?doc and uid = "''A''"
        and v = "Some 1" and s = "''clubs''" and now = 9, OF g1]
    by simp
  have c9b: "fst (submitPlay_convex (convex_run sweepC) 0 ''A'' (Some 14) ''clubs'' 9) = C_ZodError"
    using T9[where d = "convex_run sweepC" and i = 0 and doc = ?doc and uid = "''A''"
        and v = "Some 14" and s = "''clubs''" and now = 9, OF g1]
    by simp
  note c10 = T10[where d = "convex_run sweepC" and i = 0 and doc = ?doc and uid = "''A''"
      and k = 1 and s = "''clubs''" and now = 9,
      OF conjI[OF g1 conjI[OF uA conjI[OF k(1) conjI[OF k(2) k(3)]]]]]
  note c11 = T11[where d = "convex_run sweepC" and i = 0 and doc = ?doc and uid = "''D''"
      and k = 1 and s = "''clubs''" and now = 9,
      OF conjI[OF g1 conjI[OF uD conjI[OF k(1) conjI[OF k(2) k(3)]]]]]
  show ?thesis
    by (intro conjI)
      (fact h1 h2 c1 c2 c3 run_sweep_facts(1) convex_run_sweepC_facts(1) m1 c6a c6b tA tD k
         c7 c8 g1 c9a c9b uA uD c10 c11)+
qed

text \<open>
  C10. An accepted play leaves the rosters of the match and the plays of every round
  other than the current one unchanged. Only the turn, the play list of the current
  round and, when that round closes, its winner, the current round, the game winner and
  the completion flag may change. The new table is the old one with this match replaced,
  so no other match changes; the current round's list grows by exactly the submitted
  play; the recorded winners of the other rounds stay; and while the current round does
  not hold exactly four plays after the play, round winners, current round, game winner
  and completion flag stay as they were. The second conjunct is the same for the route
  over Convex: one play document is appended, and only the match's own document is
  patched.
\<close>

theorem accepted_play_frame:
  "(ms mid = Some m \<and> submitPlay ms mid uid cv s pid now = (Accepted m', ms') \<longrightarrow>
      ms' = ms(mid \<mapsto> m') \<and>
      team1 (state m') = team1 (state m) \<and> team2 (state m') = team2 (state m) \<and>
      (\<exists>c. CardSchema_parse cv s = Some c \<and>
           rounds m' (currentRound (state m)) =
             rounds m (currentRound (state m)) @
               [\<lparr>playId = pid, userId = uid, timestamp = now, playCard = c\<rparr>]) \<and>
      (\<forall>r. r \<noteq> currentRound (state m) \<longrightarrow>
           rounds m' r = rounds m r \<and> roundWinners (state m') r = roundWinners (state m) r) \<and>
      (length (rounds m' (currentRound (state m))) \<noteq> 4 \<longrightarrow>
           roundWinners (state m') = roundWinners (state m) \<and>
           currentRound (state m') = currentRound (state m) \<and>
           winner (state m') = winner (state m) \<and>
           gameComplete (state m') = gameComplete (state m))) \<and>
   (db_get d i = Some doc \<and> submitPlay_convex d i uid cv s now = (C_Accepted doc' ps, d') \<longrightarrow>
      db_get d' i = Some doc' \<and>
      length (matches_table d') = length (matches_table d) \<and>
      (\<forall>j. j \<noteq> i \<longrightarrow> db_get d' j = db_get d j) \<and>
      team1_player1 doc' = team1_player1 doc \<and> team1_player2 doc' = team1_player2 doc \<and>
      team2_player1 doc' = team2_player1 doc \<and> team2_player2 doc' = team2_player2 doc \<and>
      (\<exists>c. CardSchema_parse cv s = Some c \<and>
           plays_table d' = plays_table d @
             [\<lparr>match_id = i, user_id = uid, play_round = current_round doc, play_timestamp = now,
               card_value = cardValue c, card_suit = cardSuit c\<rparr>]) \<and>
      (\<forall>r. r \<noteq> current_round doc \<longrightarrow> round_winner r doc' = round_winner r doc) \<and>
      (length (roundPlaysOf d' i (current_round doc)) \<noteq> 4 \<longrightarrow>
           (\<forall>r. round_winner r doc' = round_winner r doc) \<and>
           current_round doc' = current_round doc \<and>
           game_winner doc' = game_winner doc \<and>
           is_complete doc' = is_complete doc))"
proof (intro conjI impI)
  assume h: "ms mid = Some m \<and> submitPlay ms mid uid cv s pid now = (Accepted m', ms')"
  then obtain c where c: "CardSchema_parse cv s = Some c" and t: "currentTurn (state m) = uid"
    and m': "m' = acceptedMatch m \<lparr>playId = pid, userId = uid, timestamp = now, playCard = c\<rparr>"
    and ms': "ms' = ms(mid \<mapsto> m')"
    by (auto simp: submitPlay_eq split: option.splits if_splits)
  show "ms' = ms(mid \<mapsto> m')" by (rule ms')
  show "team1 (state m') = team1 (state m)" by (simp add: m' team1_acceptedMatch)
  show "team2 (state m') = team2 (state m)" by (simp add: m' team2_acceptedMatch)
  show "\<exists>c. CardSchema_parse cv s = Some c \<and>
           rounds m' (currentRound (state m)) =
             rounds m (currentRound (state m)) @
               [\<lparr>playId = pid, userId = uid, timestamp = now, playCard = c\<rparr>]"
    using c by (simp add: m' rounds_acceptedMatch)
  show "\<forall>r. r \<noteq> currentRound (state m) \<longrightarrow>
           rounds m' r = rounds m r \<and> roundWinners (state m') r = roundWinners (state m) r"
    by (simp add: m' rounds_acceptedMatch roundWinners_acceptedMatch)
  assume "length (rounds m' (currentRound (state m))) \<noteq> 4"
  then have n: "length (rounds m (currentRound (state m))) \<noteq> 3"
    by (simp add: m' rounds_acceptedMatch)
  show "roundWinners (state m') = roundWinners (state m)"
    using n by (simp add: m' roundWinners_acceptedMatch)
  show "currentRound (state m') = currentRound (state m)"
    using n by (simp add: m' currentRound_acceptedMatch)
  show "winner (state m') = winner (state m)"
    using n by (simp add: m' winner_acceptedMatch)
  show "gameComplete (state m') = gameComplete (state m)"
    using n by (simp add: m' gameComplete_acceptedMatch)
next
  assume h: "db_get d i = Some doc \<and> submitPlay_convex d i uid cv s now = (C_Accepted doc' ps, d')"
  then obtain c where c: "CardSchema_parse cv s = Some c" and t: "current_turn doc = uid"
    and doc': "doc' = patchedDoc doc (newPlay i uid doc now c)
                        (roundPlaysOf d i (current_round doc) @ [newPlay i uid doc now c])"
    and d': "d' = acceptedDb d doc (newPlay i uid doc now c)"
    by (auto simp: submitPlay_convex_eq split: option.splits if_splits)
  let ?a = "newPlay i uid doc now c"
  have a: "match_id ?a = i" "play_round ?a = current_round doc" by (simp_all add: newPlay_def)
  have g: "db_get d i = Some doc" using h by simp
  show "db_get d' i = Some doc'"
    using db_get_acceptedDb[of d ?a doc] g a by (simp add: d' doc')
  show "length (matches_table d') = length (matches_table d)"
    by (simp add: d' length_matches_acceptedDb)
  show "\<forall>j. j \<noteq> i \<longrightarrow> db_get d' j = db_get d j"
    by (simp add: d' db_get_def acceptedDb_def a)
  show "team1_player1 doc' = team1_player1 doc" "team1_player2 doc' = team1_player2 doc"
    "team2_player1 doc' = team2_player1 doc" "team2_player2 doc' = team2_player2 doc"
    by (simp_all add: doc' teams_patchedDoc)
  show "\<exists>c. CardSchema_parse cv s = Some c \<and>
           plays_table d' = plays_table d @
             [\<lparr>match_id = i, user_id = uid, play_round = current_round doc, play_timestamp = now,
               card_value = cardValue c, card_suit = cardSuit c\<rparr>]"
    using c by (simp add: d' acceptedDb_def newPlay_def)
  show "\<forall>r. r \<noteq> current_round doc \<longrightarrow> round_winner r doc' = round_winner r doc"
    by (simp add: doc' round_winner_patchedDoc a)
  assume "length (roundPlaysOf d' i (current_round doc)) \<noteq> 4"
  then have n: "length (roundPlaysOf d i (current_round doc) @ [?a]) \<noteq> 4"
    by (simp add: d' roundPlaysOf_acceptedDb a)
  show "\<forall>r. round_winner r doc' = round_winner r doc"
    using n by (simp add: doc' round_winner_patchedDoc)
  show "current_round doc' = current_round doc" "game_winner doc' = game_winner doc"
    "is_complete doc' = is_complete doc"
    using unchanged_patchedDoc[OF n] by (simp_all add: doc')
qed

theorem accepted_play_frame_witness:
  "run sweep ''m'' = Some (the (run sweep ''m'')) \<and>
   submitPlay (run sweep) ''m'' ''A'' (Some 1) ''clubs'' ''p9'' 9 =
     (Accepted (the (snd ninthPlay ''m'')), snd ninthPlay) \<and>
   snd ninthPlay = (run sweep)(''m'' \<mapsto> the (snd ninthPlay ''m'')) \<and>
   team1 (state (the (snd ninthPlay ''m''))) = team1 (state (the (run sweep ''m''))) \<and>
   team2 (state (the (snd ninthPlay ''m''))) = team2 (state (the (run sweep ''m''))) \<and>
   Round1 \<noteq> currentRound (state (the (run sweep ''m''))) \<and>
   rounds (the (snd ninthPlay ''m'')) Round1 = rounds (the (run sweep ''m'')) Round1 \<and>
   roundWinners (state (the (snd ninthPlay ''m''))) Round1 =
     roundWinners (state (the (run sweep ''m''))) Round1 \<and>
   length (rounds (the (snd ninthPlay ''m'')) (currentRound (state (the (run sweep ''m''))))) \<noteq> 4 \<and>
   roundWinners (state (the (snd ninthPlay ''m''))) = roundWinners (state (the (run sweep ''m''))) \<and>
   currentRound (state (the (snd ninthPlay ''m''))) = currentRound (state (the (run sweep ''m''))) \<and>
   winner (state (the (snd ninthPlay ''m''))) = winner (state (the (run sweep ''m''))) \<and>
   gameComplete (state (the (snd ninthPlay ''m''))) = gameComplete (state (the (run sweep ''m''))) \<and>
   db_get (convex_run sweepC) 0 = Some (the (db_get (convex_run sweepC) 0)) \<and>
   submitPlay_convex (convex_run sweepC) 0 ''A'' (Some 1) ''clubs'' 9 =
     (C_Accepted (the (db_get (snd ninthPlayC) 0)) (plays_getByMatch (snd ninthPlayC) 0),
      snd ninthPlayC) \<and>
   length (matches_table (snd ninthPlayC)) = length (matches_table (convex_run sweepC)) \<and>
   team1_player1 (the (db_get (snd ninthPlayC) 0)) = team1_player1 (the (db_get (convex_run sweepC) 0)) \<and>
   team2_player2 (the (db_get (snd ninthPlayC) 0)) = team2_player2 (the (db_get (convex_run sweepC) 0)) \<and>
   Round1 \<noteq> current_round (the (db_get (convex_run sweepC) 0)) \<and>
   round_winner Round1 (the (db_get (snd ninthPlayC) 0)) =
     round_winner Round1 (the (db_get (convex_run sweepC) 0)) \<and>
   length (roundPlaysOf (snd ninthPlayC) 0 (current_round (the (db_get (convex_run sweepC) 0)))) \<noteq> 4 \<and>
   current_round (the (db_get (snd ninthPlayC) 0)) = current_round (the (db_get (convex_run sweepC) 0)) \<and>
   game_winner (the (db_get (snd ninthPlayC) 0)) = game_winner (the (db_get (convex_run sweepC) 0)) \<and>
   is_complete (the (db_get (snd ninthPlayC) 0)) = is_complete (the (db_get (convex_run sweepC) 0))"
proof -
  note T = accepted_play_frame
  note T1 = T[THEN conjunct1, rule_format]
  note T2 = T[THEN conjunct2, rule_format]
  let ?m = "the (run sweep ''m'')"
  let ?m' = "the (snd ninthPlay ''m'')"
  let ?doc = "the (db_get (convex_run sweepC) 0)"
  let ?doc' = "the (db_get (snd ninthPlayC) 0)"
  have h1: "run sweep ''m'' = Some ?m"
    using run_sweep_facts(1) by (rule option.collapse[symmetric, OF _])
  have h2: "submitPlay (run sweep) ''m'' ''A'' (Some 1) ''clubs'' ''p9'' 9 = (Accepted ?m', snd ninthPlay)"
    unfolding ninthPlay_accepted unfolding ninthPlay_def[symmetric] ninthPlay_accepted by simp
  note F = T1[where ms = "run sweep" and mid = "''m''" and m = ?m and uid = "''A''"
      and cv = "Some 1" and s = "''clubs''" and pid = "''p9''" and now = 9 and m' = ?m'
      and ms' = "snd ninthPlay", OF conjI[OF h1 h2]]
  have r: "currentRound (state ?m) = Round3" by (rule run_sweep_facts(2))
  have e: "rounds ?m Round3 = []" by (rule run_sweep_facts(8))
  have n1: "Round1 \<noteq> currentRound (state ?m)" by (simp add: r)
  have n4: "length (rounds ?m' (currentRound (state ?m))) \<noteq> 4"
    using F r e by auto
  have g1: "db_get (convex_run sweepC) 0 = Some ?doc"
    using convex_run_sweepC_facts(1) by (rule option.collapse[symmetric, OF _])
  have g2: "submitPlay_convex (convex_run sweepC) 0 ''A'' (Some 1) ''clubs'' 9 =
     (C_Accepted ?doc' (plays_getByMatch (snd ninthPlayC) 0), snd ninthPlayC)"
  proof -
    have "db_get (snd ninthPlayC) 0 = Some (fst (case fst ninthPlayC of C_Accepted x y \<Rightarrow> (x, y)))"
      unfolding ninthPlayC_accepted
      using db_get_acceptedDb[of "convex_run sweepC"
          "newPlay 0 ''A'' ?doc 9 \<lparr>cardValue = 1, cardSuit = ''clubs''\<rparr>" ?doc] g1
        convex_run_sweepC_facts(2)
      by (simp add: newPlay_def)
    then show ?thesis
      unfolding ninthPlayC_def[symmetric] by (simp add: ninthPlayC_accepted)
  qed
  note G = T2[where d = "convex_run sweepC" and i = 0 and doc = ?doc and uid = "''A''"
      and cv = "Some 1" and s = "''clubs''" and now = 9 and doc' = ?doc'
      and ps = "plays_getByMatch (snd ninthPlayC) 0" and d' = "snd ninthPlayC", OF conjI[OF g1 g2]]
  have cr: "current_round ?doc = Round3" by (rule convex_run_sweepC_facts(2))
  have ce: "roundPlaysOf (convex_run sweepC) 0 Round3 = []" by (rule convex_run_sweepC_facts(9))
  have k1: "Round1 \<noteq> current_round ?doc" by (simp add: cr)
  have k4: "length (roundPlaysOf (snd ninthPlayC) 0 (current_round ?doc)) \<noteq> 4"
    using G cr ce by (auto simp: roundPlaysOf_def)
  show ?thesis
    using F G n1 n4 k1 k4 h1 h2 g1 g2 by blast
qed

text \<open>
  C2, as the code has it. The claim is that every play request against a completed match
  is rejected and records nothing. Neither service looks at the completion flag when a
  play arrives: after \<open>sweep\<close> the match is complete, and the ninth play, by the player
  whose turn it is, is accepted and recorded in round3; after \<open>twelvePlaysC\<close> the match
  document is complete, and the thirteenth play is inserted.
\<close>

theorem completed_match_rejects_every_play_counterexample:
  "run sweep ''m'' \<noteq> None \<and>
   gameComplete (state (the (run sweep ''m''))) = Some True \<and>
   rounds (the (run sweep ''m'')) Round3 = [] \<and>
   submitPlay (run sweep) ''m'' ''A'' (Some 1) ''clubs'' ''p9'' 9 =
     (Accepted (the (snd ninthPlay ''m'')), snd ninthPlay) \<and>
   rounds (the (snd ninthPlay ''m'')) Round3 =
     [\<lparr>playId = ''p9'', userId = ''A'', timestamp = 9,
       playCard = \<lparr>cardValue = 1, cardSuit = ''clubs''\<rparr>\<rparr>] \<and>
   db_get (convex_run twelvePlaysC) 0 \<noteq> None \<and>
   is_complete (the (db_get (convex_run twelvePlaysC) 0)) = True \<and>
   length (plays_table (convex_run twelvePlaysC)) = 12 \<and>
   convex_run overrunC =
     snd (submitPlay_convex (convex_run twelvePlaysC) 0 ''A'' (Some 2) ''diamonds'' 13) \<and>
   length (plays_table (convex_run overrunC)) = 13"
proof -
  have r: "currentRound (state (the (run sweep ''m''))) = Round3" by (rule run_sweep_facts(2))
  have e: "rounds (the (run sweep ''m'')) Round3 = []" by (rule run_sweep_facts(8))
  have 1: "submitPlay (run sweep) ''m'' ''A'' (Some 1) ''clubs'' ''p9'' 9 =
     (Accepted (the (snd ninthPlay ''m'')), snd ninthPlay)"
    unfolding ninthPlay_accepted unfolding ninthPlay_def[symmetric] ninthPlay_accepted by simp
  have 2: "rounds (the (snd ninthPlay ''m'')) Round3 =
     [\<lparr>playId = ''p9'', userId = ''A'', timestamp = 9,
       playCard = \<lparr>cardValue = 1, cardSuit = ''clubs''\<rparr>\<rparr>]"
    unfolding ninthPlay_accepted using r e by (simp add: rounds_acceptedMatch)
  have 3: "convex_run overrunC =
     snd (submitPlay_convex (convex_run twelvePlaysC) 0 ''A'' (Some 2) ''diamonds'' 13)"
    by (simp add: overrunC_def convex_run_def)
  show ?thesis
    by (intro conjI)
      (fact run_sweep_facts(1) run_sweep_facts(4) e 1 2 3 convex_run_twelvePlaysC_facts(1)
         convex_run_twelvePlaysC_facts(2) convex_run_twelvePlaysC_facts(6)
         convex_run_overrunC_facts(5))+
qed

text \<open>
  C2, amended. On a completed match a play request is rejected only for an invalid card
  or for a player whose turn it is not, and then records nothing; a valid card from the
  player whose turn it is is accepted like on any other match: the play is appended to
  the current round, the turn moves on, and the match stays complete. There is no
  rejection for completion.
\<close>

theorem completed_match_accepts_valid_turn:
  "(ms mid = Some m \<and> gameComplete (state m) = Some True \<and>
    CardSchema_parse cv s = Some c \<and> currentTurn (state m) = uid \<longrightarrow>
      (\<exists>m'. submitPlay ms mid uid cv s pid now = (Accepted m', ms(mid \<mapsto> m')) \<and>
            rounds m' (currentRound (state m)) =
              rounds m (currentRound (state m)) @
                [\<lparr>playId = pid, userId = uid, timestamp = now, playCard = c\<rparr>] \<and>
            currentTurn (state m') = getNextPlayer (state m) uid \<and>
            gameComplete (state m') = Some True)) \<and>
   (ms mid = Some m \<and> gameComplete (state m) = Some True \<and>
    (\<forall>m'. fst (submitPlay ms mid uid cv s pid now) \<noteq> Accepted m') \<longrightarrow>
      submitPlay ms mid uid cv s pid now = (ZodError, ms) \<and> CardSchema_parse cv s = None \<or>
      submitPlay ms mid uid cv s pid now = (NotYourTurn, ms) \<and> currentTurn (state m) \<noteq> uid) \<and>
   (db_get d i = Some doc \<and> is_complete doc \<and>
    CardSchema_parse cv s = Some c \<and> current_turn doc = uid \<longrightarrow>
      (\<exists>doc' ps d'. submitPlay_convex d i uid cv s now = (C_Accepted doc' ps, d') \<and>
            db_get d' i = Some doc' \<and>
            plays_table d' = plays_table d @
              [\<lparr>match_id = i, user_id = uid, play_round = current_round doc, play_timestamp = now,
                card_value = cardValue c, card_suit = cardSuit c\<rparr>] \<and>
            current_turn doc' = plays_getNextPlayer doc uid \<and>
            is_complete doc')) \<and>
   (db_get d i = Some doc \<and> is_complete doc \<and>
    (\<forall>doc' ps. fst (submitPlay_convex d i uid cv s now) \<noteq> C_Accepted doc' ps) \<longrightarrow>
      submitPlay_convex d i uid cv s now = (C_ZodError, d) \<and> CardSchema_parse cv s = None \<or>
      submitPlay_convex d i uid cv s now = (C_NotYourTurn, d) \<and> current_turn doc \<noteq> uid)"
proof (intro conjI impI)
  assume h: "ms mid = Some m \<and> gameComplete (state m) = Some True \<and>
    CardSchema_parse cv s = Some c \<and> currentTurn (state m) = uid"
  let ?p = "\<lparr>playId = pid, userId = uid, timestamp = now, playCard = c\<rparr>"
  have "submitPlay ms mid uid cv s pid now =
          (Accepted (acceptedMatch m ?p), ms(mid \<mapsto> acceptedMatch m ?p))"
    using h by (simp add: submitPlay_eq)
  moreover have "rounds (acceptedMatch m ?p) (currentRound (state m)) =
                   rounds m (currentRound (state m)) @ [?p]"
    by (simp add: rounds_acceptedMatch)
  moreover have "currentTurn (state (acceptedMatch m ?p)) = getNextPlayer (state m) uid"
    by (simp add: currentTurn_acceptedMatch)
  moreover have "gameComplete (state (acceptedMatch m ?p)) = Some True"
    using h gameComplete_stays by blast
  ultimately show "\<exists>m'. submitPlay ms mid uid cv s pid now = (Accepted m', ms(mid \<mapsto> m')) \<and>
            rounds m' (currentRound (state m)) = rounds m (currentRound (state m)) @ [?p] \<and>
            currentTurn (state m') = getNextPlayer (state m) uid \<and>
            gameComplete (state m') = Some True"
    by blast
next
  assume "ms mid = Some m \<and> gameComplete (state m) = Some True \<and>
    (\<forall>m'. fst (submitPlay ms mid uid cv s pid now) \<noteq> Accepted m')"
  then show "submitPlay ms mid uid cv s pid now = (ZodError, ms) \<and> CardSchema_parse cv s = None \<or>
      submitPlay ms mid uid cv s pid now = (NotYourTurn, ms) \<and> currentTurn (state m) \<noteq> uid"
    by (auto simp: submitPlay_eq split: option.splits if_splits)
next
  assume h: "db_get d i = Some doc \<and> is_complete doc \<and>
    CardSchema_parse cv s = Some c \<and> current_turn doc = uid"
  let ?a = "newPlay i uid doc now c"
  let ?doc' = "patchedDoc doc ?a (roundPlaysOf d i (current_round doc) @ [?a])"
  have a: "match_id ?a = i" "play_round ?a = current_round doc" "user_id ?a = uid"
    by (simp_all add: newPlay_def)
  have "submitPlay_convex d i uid cv s now =
          (C_Accepted ?doc' (plays_getByMatch (acceptedDb d doc ?a) i), acceptedDb d doc ?a)"
    using h by (simp add: submitPlay_convex_eq)
  moreover have "db_get (acceptedDb d doc ?a) i = Some ?doc'"
    using db_get_acceptedDb[of d ?a doc] h a by simp
  moreover have "plays_table (acceptedDb d doc ?a) = plays_table d @
              [\<lparr>match_id = i, user_id = uid, play_round = current_round doc, play_timestamp = now,
                card_value = cardValue c, card_suit = cardSuit c\<rparr>]"
    by (simp add: acceptedDb_def newPlay_def)
  moreover have "current_turn ?doc' = plays_getNextPlayer doc uid"
    by (simp add: current_turn_patchedDoc a)
  moreover have "is_complete ?doc'"
    using h is_complete_stays by blast
  ultimately show "\<exists>doc' ps d'. submitPlay_convex d i uid cv s now = (C_Accepted doc' ps, d') \<and>
            db_get d' i = Some doc' \<and>
            plays_table d' = plays_table d @
              [\<lparr>match_id = i, user_id = uid, play_round = current_round doc, play_timestamp = now,
                card_value = cardValue c, card_suit = cardSuit c\<rparr>] \<and>
            current_turn doc' = plays_getNextPlayer doc uid \<and>
            is_complete doc'"
    by blast
next
  assume "db_get d i = Some doc \<and> is_complete doc \<and>
    (\<forall>doc' ps. fst (submitPlay_convex d i uid cv s now) \<noteq> C_Accepted doc' ps)"
  then show "submitPlay_convex d i uid cv s now = (C_ZodError, d) \<and> CardSchema_parse cv s = None \<or>
      submitPlay_convex d i uid cv s now = (C_NotYourTurn, d) \<and> current_turn doc \<noteq> uid"
    by (auto simp: submitPlay_convex_eq split: option.splits if_splits)
qed

theorem completed_match_accepts_valid_turn_witness:
  "run sweep ''m'' = Some (the (run sweep ''m'')) \<and>
   gameComplete (state (the (run sweep ''m''))) = Some True \<and>
   CardSchema_parse (Some 1) ''clubs'' = Some \<lparr>cardValue = 1, cardSuit = ''clubs''\<rparr> \<and>
   currentTurn (state (the (run sweep ''m''))) = ''A'' \<and>
   (\<exists>m'. submitPlay (run sweep) ''m'' ''A'' (Some 1) ''clubs'' ''p9'' 9 =
           (Accepted m', (run sweep)(''m'' \<mapsto> m')) \<and>
         rounds m' (currentRound (state (the (run sweep ''m'')))) =
           rounds (the (run sweep ''m'')) (currentRound (state (the (run sweep ''m'')))) @
             [\<lparr>playId = ''p9'', userId = ''A'', timestamp = 9,
               playCard = \<lparr>cardValue = 1, cardSuit = ''clubs''\<rparr>\<rparr>] \<and>
         currentTurn (state m') = getNextPlayer (state (the (run sweep ''m''))) ''A'' \<and>
         gameComplete (state m') = Some True) \<and>
   (\<forall>m'. fst (submitPlay (run sweep) ''m'' ''D'' (Some 1) ''clubs'' ''p9'' 9) \<noteq> Accepted m') \<and>
   submitPlay (run sweep) ''m'' ''D'' (Some 1) ''clubs'' ''p9'' 9 = (NotYourTurn, run sweep) \<and>
   currentTurn (state (the (run sweep ''m''))) \<noteq> ''D'' \<and>
   db_get (convex_run twelvePlaysC) 0 = Some (the (db_get (convex_run twelvePlaysC) 0)) \<and>
   is_complete (the (db_get (convex_run twelvePlaysC) 0)) \<and>
   CardSchema_parse (Some 2) ''diamonds'' = Some \<lparr>cardValue = 2, cardSuit = ''diamonds''\<rparr> \<and>
   current_turn (the (db_get (convex_run twelvePlaysC) 0)) = ''A'' \<and>
   (\<exists>doc' ps d'. submitPlay_convex (convex_run twelvePlaysC) 0 ''A'' (Some 2) ''diamonds'' 13 =
           (C_Accepted doc' ps, d') \<and>
         db_get d' 0 = Some doc' \<and>
         plays_table d' = plays_table (convex_run twelvePlaysC) @
           [\<lparr>match_id = 0, user_id = ''A'',
             play_round = current_round (the (db_get (convex_run twelvePlaysC) 0)),
             play_timestamp = 13, card_value = cardValue \<lparr>cardValue = 2, cardSuit = ''diamonds''\<rparr>,
             card_suit = cardSuit \<lparr>cardValue = 2, cardSuit = ''diamonds''\<rparr>\<rparr>] \<and>
         current_turn doc' = plays_getNextPlayer (the (db_get (convex_run twelvePlaysC) 0)) ''A'' \<and>
         is_complete doc') \<and>
   (\<forall>doc' ps. fst (submitPlay_convex (convex_run twelvePlaysC) 0 ''D'' (Some 2) ''diamonds'' 13) \<noteq>
       C_Accepted doc' ps) \<and>
   submitPlay_convex (convex_run twelvePlaysC) 0 ''D'' (Some 2) ''diamonds'' 13 =
     (C_NotYourTurn, convex_run twelvePlaysC) \<and>
   current_turn (the (db_get (convex_run twelvePlaysC) 0)) \<noteq> ''D''"
proof -
  note T = completed_match_accepts_valid_turn
  note T1 = T[THEN conjunct1, rule_format]
  note T2 = T[THEN conjunct2, THEN conjunct1, rule_format]
  note T3 = T[THEN conjunct2, THEN conjunct2, THEN conjunct1, rule_format]
  note T4 = T[THEN conjunct2, THEN conjunct2, THEN conjunct2, rule_format]
  let ?m = "the (run sweep ''m'')"
  let ?doc = "the (db_get (convex_run twelvePlaysC) 0)"
  have h1: "run sweep ''m'' = Some ?m"
    using run_sweep_facts(1) by (rule option.collapse[symmetric, OF _])
  have h2: "gameComplete (state ?m) = Some True" by (rule run_sweep_facts(4))
  have h3: "CardSchema_parse (Some 1) ''clubs'' = Some \<lparr>cardValue = 1, cardSuit = ''clubs''\<rparr>"
    by (simp add: CardSchema_parse_def suits_def)
  have h4: "currentTurn (state ?m) = ''A''" by (rule run_sweep_facts(3))
  have h5: "currentTurn (state ?m) \<noteq> ''D''" by (simp add: h4)
  note c1 = T1[where ms = "run sweep" and mid = "''m''" and m = ?m and cv = "Some 1"
      and s = "''clubs''" and uid = "''A''" and pid = "''p9''" and now = 9,
      OF conjI[OF h1 conjI[OF h2 conjI[OF h3 h4]]]]
  have rej: "submitPlay (run sweep) ''m'' ''D'' (Some 1) ''clubs'' ''p9'' 9 = (NotYourTurn, run sweep)"
    using run_sweep_facts(1) h3 h5 by (auto simp: submitPlay_eq)
  have h6: "\<forall>m'. fst (submitPlay (run sweep) ''m'' ''D'' (Some 1) ''clubs'' ''p9'' 9) \<noteq> Accepted m'"
    by (simp add: rej)
  have c2: "submitPlay (run sweep) ''m'' ''D'' (Some 1) ''clubs'' ''p9'' 9 = (NotYourTurn, run sweep)"
    using T2[where ms = "run sweep" and mid = "''m''" and m = ?m and cv = "Some 1"
      and s = "''clubs''" and uid = "''D''" and pid = "''p9''" and now = 9,
      OF conjI[OF h1 conjI[OF h2 h6]]] h3
    by auto
  have g1: "db_get (convex_run twelvePlaysC) 0 = Some ?doc"
    using convex_run_twelvePlaysC_facts(1) by (rule option.collapse[symmetric, OF _])
  have g2: "is_complete ?doc" by (simp add: convex_run_twelvePlaysC_facts(2))
  have g3: "CardSchema_parse (Some 2) ''diamonds'' = Some \<lparr>cardValue = 2, cardSuit = ''diamonds''\<rparr>"
    by (simp add: CardSchema_parse_def suits_def)
  have g4: "current_turn ?doc = ''A''" by (rule convex_run_twelvePlaysC_facts(4))
  have g5: "current_turn ?doc \<noteq> ''D''" by (simp add: g4)
  note c3 = T3[where d = "convex_run twelvePlaysC" and i = 0 and doc = ?doc and cv = "Some 2"
      and s = "''diamonds''" and uid = "''A''" and now = 13,
      OF conjI[OF g1 conjI[OF g2 conjI[OF g3 g4]]]]
  have rejc: "submitPlay_convex (convex_run twelvePlaysC) 0 ''D'' (Some 2) ''diamonds'' 13 =
     (C_NotYourTurn, convex_run twelvePlaysC)"
    using convex_run_twelvePlaysC_facts(1) g3 g5 by (auto simp: submitPlay_convex_eq)
  have g6: "\<forall>doc' ps. fst (submitPlay_convex (convex_run twelvePlaysC) 0 ''D'' (Some 2) ''diamonds'' 13) \<noteq>
       C_Accepted doc' ps"
    by (simp add: rejc)
  have c4: "submitPlay_convex (convex_run twelvePlaysC) 0 ''D'' (Some 2) ''diamonds'' 13 =
     (C_NotYourTurn, convex_run twelvePlaysC)"
    using T4[where d = "convex_run twelvePlaysC" and i = 0 and doc = ?doc and cv = "Some 2"
      and s = "''diamonds''" and uid = "''D''" and now = 13,
      OF conjI[OF g1 conjI[OF g2 g6]]] g3
    by auto
  show ?thesis
    by (intro conjI) (fact h1 h2 h3 h4 h5 h6 c1 c2 g1 g2 g3 g4 g5 g6 c3 c4)+
qed

text \<open>
  C3, as the code has it. The claim is that in every reachable state a round's winner is
  set if and only if the round holds exactly four plays, and that no round ever holds
  more than four. Round3 is the last round: once it has closed, the current round stays
  round3 and further plays by the player whose turn it is are still accepted, so after
  \<open>overrun\<close> round3 holds five plays while its winner is set, in both services.
\<close>

theorem round_never_exceeds_four_plays_counterexample:
  "run overrun ''m'' \<noteq> None \<and>
   length (rounds (the (run overrun ''m'')) Round3) = 5 \<and>
   roundWinners (state (the (run overrun ''m''))) Round3 = Some Team2 \<and>
   db_get (convex_run overrunC) 0 \<noteq> None \<and>
   length (roundPlaysOf (convex_run overrunC) 0 Round3) = 5 \<and>
   round3_winner (the (db_get (convex_run overrunC) 0)) = Some Team2"
  by (intro conjI)
    (fact run_overrun_facts(1) run_overrun_facts(2) run_overrun_facts(3)
       convex_run_overrunC_facts(1) convex_run_overrunC_facts(4) convex_run_overrunC_facts(3))+

text \<open>
  C3, amended. In every reachable state the winner of round1 and of round2 is set if and
  only if that round holds exactly four plays, and these two rounds never hold more than
  four; the winner of round3 is set if and only if round3 holds at least four plays. The
  play that brings the current round to four plays sets that round's winner, to what the
  round resolver returns on those four plays, in the same request. Conjuncts one and two
  are the in-memory service, three and four the Convex-backed one.
\<close>

theorem round_winner_set_when_round_reaches_four:
  "(run evs mid = Some m \<longrightarrow>
      (roundWinners (state m) Round1 \<noteq> None) = (length (rounds m Round1) = 4) \<and>
      (roundWinners (state m) Round2 \<noteq> None) = (length (rounds m Round2) = 4) \<and>
      (roundWinners (state m) Round3 \<noteq> None) = (4 \<le> length (rounds m Round3)) \<and>
      length (rounds m Round1) \<le> 4 \<and> length (rounds m Round2) \<le> 4) \<and>
   (ms mid = Some m \<and> submitPlay ms mid uid cv s pid now = (Accepted m', ms') \<and>
    length (rounds m' (currentRound (state m))) = 4 \<longrightarrow>
      roundWinners (state m') (currentRound (state m)) =
        determineRoundWinner (rounds m' (currentRound (state m))) (state m') \<and>
      roundWinners (state m') (currentRound (state m)) \<noteq> None) \<and>
   (db_get (convex_run cevs) i = Some doc \<longrightarrow>
      (round1_winner doc \<noteq> None) = (length (roundPlaysOf (convex_run cevs) i Round1) = 4) \<and>
      (round2_winner doc \<noteq> None) = (length (roundPlaysOf (convex_run cevs) i Round2) = 4) \<and>
      (round3_winner doc \<noteq> None) = (4 \<le> length (roundPlaysOf (convex_run cevs) i Round3)) \<and>
      length (roundPlaysOf (convex_run cevs) i Round1) \<le> 4 \<and>
      length (roundPlaysOf (convex_run cevs) i Round2) \<le> 4) \<and>
   (db_get d i = Some doc \<and> submitPlay_convex d i uid cv s now = (C_Accepted doc' ps, d') \<and>
    length (roundPlaysOf d' i (current_round doc)) = 4 \<longrightarrow>
      round_winner (current_round doc) doc' =
        plays_determineRoundWinner (roundPlaysOf d' i (current_round doc)) doc' \<and>
      round_winner (current_round doc) doc' \<noteq> None)"
proof (intro conjI impI)
  assume "run evs mid = Some m"
  then have inv: "match_inv m" by (rule match_inv_run)
  show "(roundWinners (state m) Round1 \<noteq> None) = (length (rounds m Round1) = 4)"
    "(roundWinners (state m) Round2 \<noteq> None) = (length (rounds m Round2) = 4)"
    "(roundWinners (state m) Round3 \<noteq> None) = (4 \<le> length (rounds m Round3))"
    "length (rounds m Round1) \<le> 4" "length (rounds m Round2) \<le> 4"
    using round_closure_inmemory[OF inv] by blast+
next
  assume h: "ms mid = Some m \<and> submitPlay ms mid uid cv s pid now = (Accepted m', ms') \<and>
    length (rounds m' (currentRound (state m))) = 4"
  then obtain c where
    m': "m' = acceptedMatch m \<lparr>playId = pid, userId = uid, timestamp = now, playCard = c\<rparr>"
    by (auto simp: submitPlay_eq split: option.splits if_splits)
  let ?p = "\<lparr>playId = pid, userId = uid, timestamp = now, playCard = c\<rparr>"
  have n: "length (rounds m (currentRound (state m))) = 3"
    using h by (simp add: m' rounds_acceptedMatch)
  have eq: "roundWinners (state m') (currentRound (state m)) =
          determineRoundWinner (rounds m (currentRound (state m)) @ [?p]) (state m)"
    using n by (simp add: m' roundWinners_acceptedMatch)
  show "roundWinners (state m') (currentRound (state m)) =
        determineRoundWinner (rounds m' (currentRound (state m))) (state m')"
    unfolding eq
    by (simp add: m' rounds_acceptedMatch
        determineRoundWinner_team1[of "state (acceptedMatch m ?p)" "state m", OF team1_acceptedMatch])
  show "roundWinners (state m') (currentRound (state m)) \<noteq> None"
    unfolding eq
    using determineRoundWinner_Some[of "rounds m (currentRound (state m)) @ [?p]" "state m"]
    by auto
next
  assume "db_get (convex_run cevs) i = Some doc"
  then have inv: "doc_inv (convex_run cevs) i doc" by (rule doc_inv_run)
  show "(round1_winner doc \<noteq> None) = (length (roundPlaysOf (convex_run cevs) i Round1) = 4)"
    "(round2_winner doc \<noteq> None) = (length (roundPlaysOf (convex_run cevs) i Round2) = 4)"
    "(round3_winner doc \<noteq> None) = (4 \<le> length (roundPlaysOf (convex_run cevs) i Round3))"
    "length (roundPlaysOf (convex_run cevs) i Round1) \<le> 4"
    "length (roundPlaysOf (convex_run cevs) i Round2) \<le> 4"
    using round_closure_convex[OF inv] by blast+
next
  assume h: "db_get d i = Some doc \<and> submitPlay_convex d i uid cv s now = (C_Accepted doc' ps, d') \<and>
    length (roundPlaysOf d' i (current_round doc)) = 4"
  then obtain c where
    doc': "doc' = patchedDoc doc (newPlay i uid doc now c)
                        (roundPlaysOf d i (current_round doc) @ [newPlay i uid doc now c])"
    and d': "d' = acceptedDb d doc (newPlay i uid doc now c)"
    by (auto simp: submitPlay_convex_eq split: option.splits if_splits)
  let ?a = "newPlay i uid doc now c"
  let ?rp = "roundPlaysOf d i (current_round doc) @ [?a]"
  have a: "match_id ?a = i" "play_round ?a = current_round doc" by (simp_all add: newPlay_def)
  have rp: "roundPlaysOf d' i (current_round doc) = ?rp"
    by (simp add: d' roundPlaysOf_acceptedDb a)
  have n: "length ?rp = 4" using h rp by simp
  have eq: "round_winner (current_round doc) doc' = plays_determineRoundWinner ?rp doc"
    using n by (simp add: doc' round_winner_patchedDoc a)
  have t: "plays_determineRoundWinner ps' doc' = plays_determineRoundWinner ps' doc" for ps'
    unfolding doc' by (rule plays_determineRoundWinner_teams) (simp_all add: teams_patchedDoc)
  show "round_winner (current_round doc) doc' =
        plays_determineRoundWinner (roundPlaysOf d' i (current_round doc)) doc'"
    unfolding eq rp t by (rule refl)
  show "round_winner (current_round doc) doc' \<noteq> None"
    unfolding eq using plays_determineRoundWinner_Some[of ?rp doc] by auto
qed

theorem round_winner_set_when_round_reaches_four_witness:
  "run overrun ''m'' = Some (the (run overrun ''m'')) \<and>
   (roundWinners (state (the (run overrun ''m''))) Round1 \<noteq> None) =
     (length (rounds (the (run overrun ''m'')) Round1) = 4) \<and>
   (roundWinners (state (the (run overrun ''m''))) Round2 \<noteq> None) =
     (length (rounds (the (run overrun ''m'')) Round2) = 4) \<and>
   (roundWinners (state (the (run overrun ''m''))) Round3 \<noteq> None) =
     (4 \<le> length (rounds (the (run overrun ''m'')) Round3)) \<and>
   length (rounds (the (run overrun ''m'')) Round1) \<le> 4 \<and>
   length (rounds (the (run overrun ''m'')) Round2) \<le> 4 \<and>
   run elevenPlays ''m'' = Some (the (run elevenPlays ''m'')) \<and>
   submitPlay (run elevenPlays) ''m'' ''D'' (Some 9) ''hearts'' ''p12'' 12 =
     (Accepted (acceptedMatch (the (run elevenPlays ''m'')) twelfthPlayRec),
      (run elevenPlays)(''m'' \<mapsto> acceptedMatch (the (run elevenPlays ''m'')) twelfthPlayRec)) \<and>
   length (rounds (acceptedMatch (the (run elevenPlays ''m'')) twelfthPlayRec)
             (currentRound (state (the (run elevenPlays ''m''))))) = 4 \<and>
   roundWinners (state (acceptedMatch (the (run elevenPlays ''m'')) twelfthPlayRec))
       (currentRound (state (the (run elevenPlays ''m''))))
     = determineRoundWinner
         (rounds (acceptedMatch (the (run elevenPlays ''m'')) twelfthPlayRec)
            (currentRound (state (the (run elevenPlays ''m'')))))
         (state (acceptedMatch (the (run elevenPlays ''m'')) twelfthPlayRec)) \<and>
   roundWinners (state (acceptedMatch (the (run elevenPlays ''m'')) twelfthPlayRec))
       (currentRound (state (the (run elevenPlays ''m'')))) \<noteq> None \<and>
   db_get (convex_run overrunC) 0 = Some (the (db_get (convex_run overrunC) 0)) \<and>
   (round1_winner (the (db_get (convex_run overrunC) 0)) \<noteq> None) =
     (length (roundPlaysOf (convex_run overrunC) 0 Round1) = 4) \<and>
   (round2_winner (the (db_get (convex_run overrunC) 0)) \<noteq> None) =
     (length (roundPlaysOf (convex_run overrunC) 0 Round2) = 4) \<and>
   (round3_winner (the (db_get (convex_run overrunC) 0)) \<noteq> None) =
     (4 \<le> length (roundPlaysOf (convex_run overrunC) 0 Round3)) \<and>
   length (roundPlaysOf (convex_run overrunC) 0 Round1) \<le> 4 \<and>
   length (roundPlaysOf (convex_run overrunC) 0 Round2) \<le> 4 \<and>
   db_get (convex_run elevenPlaysC) 0 = Some (the (db_get (convex_run elevenPlaysC) 0)) \<and>
   submitPlay_convex (convex_run elevenPlaysC) 0 ''D'' (Some 9) ''hearts'' 12 =
     (C_Accepted
        (patchedDoc (the (db_get (convex_run elevenPlaysC) 0)) twelfthPlayDoc
           (roundPlaysOf (convex_run elevenPlaysC) 0 Round3 @ [twelfthPlayDoc]))
        (plays_getByMatch
           (acceptedDb (convex_run elevenPlaysC) (the (db_get (convex_run elevenPlaysC) 0))
              twelfthPlayDoc) 0),
      acceptedDb (convex_run elevenPlaysC) (the (db_get (convex_run elevenPlaysC) 0))
        twelfthPlayDoc) \<and>
   length (roundPlaysOf
             (acceptedDb (convex_run elevenPlaysC) (the (db_get (convex_run elevenPlaysC) 0))
                twelfthPlayDoc) 0
             (current_round (the (db_get (convex_run elevenPlaysC) 0)))) = 4 \<and>
   round_winner (current_round (the (db_get (convex_run elevenPlaysC) 0)))
       (patchedDoc (the (db_get (convex_run elevenPlaysC) 0)) twelfthPlayDoc
          (roundPlaysOf (convex_run elevenPlaysC) 0 Round3 @ [twelfthPlayDoc])) \<noteq> None"
proof -
  note T = round_winner_set_when_round_reaches_four
  note T1 = T[THEN conjunct1, rule_format]
  note T2 = T[THEN conjunct2, THEN conjunct1, rule_format]
  note T3 = T[THEN conjunct2, THEN conjunct2, THEN conjunct1, rule_format]
  note T4 = T[THEN conjunct2, THEN conjunct2, THEN conjunct2, rule_format]
  let ?mo = "the (run overrun ''m'')"
  let ?m = "the (run elevenPlays ''m'')"
  let ?m' = "acceptedMatch ?m twelfthPlayRec"
  let ?d = "convex_run elevenPlaysC"
  let ?doc = "the (db_get ?d 0)"
  let ?doc' = "patchedDoc ?doc twelfthPlayDoc (roundPlaysOf ?d 0 Round3 @ [twelfthPlayDoc])"
  let ?d' = "acceptedDb ?d ?doc twelfthPlayDoc"
  have p: "CardSchema_parse (Some 9) ''hearts'' = Some \<lparr>cardValue = 9, cardSuit = ''hearts''\<rparr>"
    by (simp add: CardSchema_parse_def suits_def)
  have h1: "run overrun ''m'' = Some ?mo"
    using run_overrun_facts(1) by (rule option.collapse[symmetric, OF _])
  note c1 = T1[where evs = overrun and mid = "''m''" and m = ?mo, OF h1]
  have h2: "run elevenPlays ''m'' = Some ?m"
    using run_elevenPlays_facts(1) by (rule option.collapse[symmetric, OF _])
  have r: "currentRound (state ?m) = Round3" by (rule run_elevenPlays_facts(2))
  have h3: "submitPlay (run elevenPlays) ''m'' ''D'' (Some 9) ''hearts'' ''p12'' 12 =
     (Accepted ?m', (run elevenPlays)(''m'' \<mapsto> ?m'))"
    using run_elevenPlays_facts(1,3) p by (auto simp: submitPlay_eq twelfthPlayRec_def)
  have h4: "length (rounds ?m' (currentRound (state ?m))) = 4"
    using run_elevenPlays_facts(4) r by (simp add: rounds_acceptedMatch)
  note c2 = T2[where ms = "run elevenPlays" and mid = "''m''" and m = ?m and uid = "''D''"
      and cv = "Some 9" and s = "''hearts''" and pid = "''p12''" and now = 12 and m' = ?m'
      and ms' = "(run elevenPlays)(''m'' \<mapsto> ?m')", OF conjI[OF h2 conjI[OF h3 h4]]]
  have g1: "db_get (convex_run overrunC) 0 = Some (the (db_get (convex_run overrunC) 0))"
    using convex_run_overrunC_facts(1) by (rule option.collapse[symmetric, OF _])
  note c3 = T3[where cevs = overrunC and i = 0 and doc = "the (db_get (convex_run overrunC) 0)", OF g1]
  have g2: "db_get ?d 0 = Some ?doc"
    using convex_run_elevenPlaysC_facts(1) by (rule option.collapse[symmetric, OF _])
  have cr: "current_round ?doc = Round3" by (rule convex_run_elevenPlaysC_facts(2))
  have np: "newPlay 0 ''D'' y 12 \<lparr>cardValue = 9, cardSuit = ''hearts''\<rparr> = twelfthPlayDoc"
    if "current_round y = Round3" for y
    using that by (simp add: newPlay_def twelfthPlayDoc_def)
  have g3: "submitPlay_convex ?d 0 ''D'' (Some 9) ''hearts'' 12 =
     (C_Accepted ?doc' (plays_getByMatch ?d' 0), ?d')"
    using convex_run_elevenPlaysC_facts(1,3) p cr by (auto simp: submitPlay_convex_eq np)
  have a: "match_id twelfthPlayDoc = 0" "play_round twelfthPlayDoc = Round3"
    by (simp_all add: twelfthPlayDoc_def)
  have g4: "length (roundPlaysOf ?d' 0 (current_round ?doc)) = 4"
    using convex_run_elevenPlaysC_facts(6) by (simp add: roundPlaysOf_acceptedDb a cr)
  note c4 = T4[where d = ?d and i = 0 and doc = ?doc and uid = "''D''" and cv = "Some 9"
      and s = "''hearts''" and now = 12 and doc' = ?doc' and ps = "plays_getByMatch ?d' 0"
      and d' = ?d', OF conjI[OF g2 conjI[OF g3 g4]]]
  show ?thesis
    using h1 c1 h2 h3 h4 c2 g1 c3 g2 g3 g4 c4 by blast
qed

text \<open>
  C5, as the code has it. The claim is that the next player follows the ring of seats
  team1.player1, team2.player1, team1.player2, team2.player2 for every identity among the
  four seats. The next player is looked up by identity, and a match is created from any
  four strings: when team1 seats A twice, the player after team1.player2 is team2's
  player1 (C), not team2's player2 (D), in both services.
\<close>

theorem seat_ring_with_repeated_identity_counterexample:
  "getNextPlayer stateAA (player2 (team1 stateAA)) = ''C'' \<and>
   player2 (team2 stateAA) = ''D'' \<and>
   getNextPlayer stateAA (player2 (team1 stateAA)) \<noteq> player2 (team2 stateAA) \<and>
   plays_getNextPlayer docAA (team1_player2 docAA) = ''C'' \<and>
   team2_player2 docAA = ''D'' \<and>
   plays_getNextPlayer docAA (team1_player2 docAA) \<noteq> team2_player2 docAA"
  by (simp add: stateAA_def docAA_def teamAA_def teamCD_def newMatch_def getNextPlayer_def
      plays_getNextPlayer_def createMatch_convex_def matches_create_def)

text \<open>
  C5, amended. When the four seat identities are pairwise distinct, the next player
  follows the ring team1.player1, team2.player1, team1.player2, team2.player2,
  team1.player1. In every reachable state, whatever the identities, each recorded play
  was submitted by the next player of the one before it, and the turn is with the next
  player of the last play (team1.player1 before the first). An accepted play is appended
  to the match's plays and leaves the next-player function as it was, whether or not a
  round closes and whoever wins it. Conjuncts one to three are the in-memory service,
  four to six the Convex-backed one.
\<close>

theorem next_player_follows_seat_ring:
  "(distinct [player1 (team1 st), player1 (team2 st), player2 (team1 st), player2 (team2 st)] \<longrightarrow>
      getNextPlayer st (player1 (team1 st)) = player1 (team2 st) \<and>
      getNextPlayer st (player1 (team2 st)) = player2 (team1 st) \<and>
      getNextPlayer st (player2 (team1 st)) = player2 (team2 st) \<and>
      getNextPlayer st (player2 (team2 st)) = player1 (team1 st)) \<and>
   (run evs mid = Some m \<longrightarrow>
      (\<forall>n. Suc n < length (allPlays m) \<longrightarrow>
           userId (allPlays m ! Suc n) = getNextPlayer (state m) (userId (allPlays m ! n))) \<and>
      currentTurn (state m) =
        (if allPlays m = [] then player1 (team1 (state m))
         else getNextPlayer (state m) (userId (last (allPlays m))))) \<and>
   (run evs mid = Some m \<and>
    submitPlay (run evs) mid uid cv s pid now = (Accepted m', ms') \<longrightarrow>
      (\<exists>c. CardSchema_parse cv s = Some c \<and>
          allPlays m' =
            allPlays m @ [\<lparr>playId = pid, userId = uid, timestamp = now, playCard = c\<rparr>]) \<and>
      getNextPlayer (state m') = getNextPlayer (state m)) \<and>
   (distinct [team1_player1 doc, team2_player1 doc, team1_player2 doc, team2_player2 doc] \<longrightarrow>
      plays_getNextPlayer doc (team1_player1 doc) = team2_player1 doc \<and>
      plays_getNextPlayer doc (team2_player1 doc) = team1_player2 doc \<and>
      plays_getNextPlayer doc (team1_player2 doc) = team2_player2 doc \<and>
      plays_getNextPlayer doc (team2_player2 doc) = team1_player1 doc) \<and>
   (db_get (convex_run cevs) i = Some cdoc \<longrightarrow>
      (\<forall>n. Suc n < length (plays_getByMatch (convex_run cevs) i) \<longrightarrow>
           user_id (plays_getByMatch (convex_run cevs) i ! Suc n) =
             plays_getNextPlayer cdoc (user_id (plays_getByMatch (convex_run cevs) i ! n))) \<and>
      current_turn cdoc =
        (if plays_getByMatch (convex_run cevs) i = [] then team1_player1 cdoc
         else plays_getNextPlayer cdoc (user_id (last (plays_getByMatch (convex_run cevs) i))))) \<and>
   (db_get d i = Some cdoc \<and>
    submitPlay_convex d i uid cv s now = (C_Accepted doc' ps, d') \<longrightarrow>
      (\<exists>c. CardSchema_parse cv s = Some c \<and>
          plays_getByMatch d' i =
            plays_getByMatch d i @
              [\<lparr>match_id = i, user_id = uid, play_round = current_round cdoc, play_timestamp = now,
                card_value = cardValue c, card_suit = cardSuit c\<rparr>]) \<and>
      plays_getNextPlayer doc' = plays_getNextPlayer cdoc)"
proof (intro conjI impI)
  assume d: "distinct [player1 (team1 st), player1 (team2 st), player2 (team1 st), player2 (team2 st)]"
  show "getNextPlayer st (player1 (team1 st)) = player1 (team2 st)"
    "getNextPlayer st (player1 (team2 st)) = player2 (team1 st)"
    "getNextPlayer st (player2 (team1 st)) = player2 (team2 st)"
    "getNextPlayer st (player2 (team2 st)) = player1 (team1 st)"
    using getNextPlayer_ring[OF d] by blast+
next
  assume "run evs mid = Some m"
  then have "turnsFollow m" using match_inv_run by (auto simp: match_inv_def)
  then show "\<forall>n. Suc n < length (allPlays m) \<longrightarrow>
           userId (allPlays m ! Suc n) = getNextPlayer (state m) (userId (allPlays m ! n))"
    "currentTurn (state m) =
        (if allPlays m = [] then player1 (team1 (state m))
         else getNextPlayer (state m) (userId (last (allPlays m))))"
    by (simp_all add: turnsFollow_def)
next
  assume h: "run evs mid = Some m \<and>
    submitPlay (run evs) mid uid cv s pid now = (Accepted m', ms')"
  then obtain c where c: "CardSchema_parse cv s = Some c" and
    m': "m' = acceptedMatch m \<lparr>playId = pid, userId = uid, timestamp = now, playCard = c\<rparr>"
    by (auto simp: submitPlay_eq split: option.splits if_splits)
  have ord: "roundsInOrder m" using h match_inv_run by (auto simp: match_inv_def)
  show "\<exists>c. CardSchema_parse cv s = Some c \<and>
          allPlays m' =
            allPlays m @ [\<lparr>playId = pid, userId = uid, timestamp = now, playCard = c\<rparr>]"
    using allPlays_acceptedMatch[OF ord] m' c by blast
  show "getNextPlayer (state m') = getNextPlayer (state m)"
    unfolding m' by (rule getNextPlayer_teams) (simp_all add: team1_acceptedMatch team2_acceptedMatch)
next
  assume d: "distinct [team1_player1 doc, team2_player1 doc, team1_player2 doc, team2_player2 doc]"
  show "plays_getNextPlayer doc (team1_player1 doc) = team2_player1 doc"
    "plays_getNextPlayer doc (team2_player1 doc) = team1_player2 doc"
    "plays_getNextPlayer doc (team1_player2 doc) = team2_player2 doc"
    "plays_getNextPlayer doc (team2_player2 doc) = team1_player1 doc"
    using plays_getNextPlayer_ring[OF d] by blast+
next
  assume "db_get (convex_run cevs) i = Some cdoc"
  then have "docTurnsFollow (convex_run cevs) i cdoc"
    using doc_inv_run by (auto simp: doc_inv_def)
  then show "\<forall>n. Suc n < length (plays_getByMatch (convex_run cevs) i) \<longrightarrow>
           user_id (plays_getByMatch (convex_run cevs) i ! Suc n) =
             plays_getNextPlayer cdoc (user_id (plays_getByMatch (convex_run cevs) i ! n))"
    "current_turn cdoc =
        (if plays_getByMatch (convex_run cevs) i = [] then team1_player1 cdoc
         else plays_getNextPlayer cdoc (user_id (last (plays_getByMatch (convex_run cevs) i))))"
    by (simp_all add: docTurnsFollow_def)
next
  assume h: "db_get d i = Some cdoc \<and>
    submitPlay_convex d i uid cv s now = (C_Accepted doc' ps, d')"
  then obtain c where c: "CardSchema_parse cv s = Some c" and
    doc': "doc' = patchedDoc cdoc (newPlay i uid cdoc now c)
                        (roundPlaysOf d i (current_round cdoc) @ [newPlay i uid cdoc now c])"
    and d': "d' = acceptedDb d cdoc (newPlay i uid cdoc now c)"
    by (auto simp: submitPlay_convex_eq split: option.splits if_splits)
  have app: "plays_getByMatch d' i = plays_getByMatch d i @ [newPlay i uid cdoc now c]"
    by (simp add: d' plays_getByMatch_acceptedDb newPlay_def)
  show "\<exists>c. CardSchema_parse cv s = Some c \<and>
          plays_getByMatch d' i =
            plays_getByMatch d i @
              [\<lparr>match_id = i, user_id = uid, play_round = current_round cdoc, play_timestamp = now,
                card_value = cardValue c, card_suit = cardSuit c\<rparr>]"
    by (rule exI[of _ c]) (simp add: c app newPlay_def)
  show "plays_getNextPlayer doc' = plays_getNextPlayer cdoc"
    unfolding doc' by (rule plays_getNextPlayer_teams) (simp_all add: teams_patchedDoc)
qed

theorem next_player_follows_seat_ring_witness:
  "distinct [player1 (team1 stateAB), player1 (team2 stateAB),
             player2 (team1 stateAB), player2 (team2 stateAB)] \<and>
   getNextPlayer stateAB (player1 (team1 stateAB)) = player1 (team2 stateAB) \<and>
   getNextPlayer stateAB (player1 (team2 stateAB)) = player2 (team1 stateAB) \<and>
   getNextPlayer stateAB (player2 (team1 stateAB)) = player2 (team2 stateAB) \<and>
   getNextPlayer stateAB (player2 (team2 stateAB)) = player1 (team1 stateAB) \<and>
   run overrun ''m'' = Some (the (run overrun ''m'')) \<and>
   Suc 3 < length (allPlays (the (run overrun ''m''))) \<and>
   userId (allPlays (the (run overrun ''m'')) ! Suc 3) =
     getNextPlayer (state (the (run overrun ''m''))) (userId (allPlays (the (run overrun ''m'')) ! 3)) \<and>
   run sweep ''m'' = Some (the (run sweep ''m'')) \<and>
   submitPlay (run sweep) ''m'' ''A'' (Some 1) ''clubs'' ''p9'' 9 =
     (Accepted (acceptedMatch (the (run sweep ''m''))
                  \<lparr>playId = ''p9'', userId = ''A'', timestamp = 9,
                    playCard = \<lparr>cardValue = 1, cardSuit = ''clubs''\<rparr>\<rparr>),
      (run sweep)(''m'' \<mapsto> acceptedMatch (the (run sweep ''m''))
                  \<lparr>playId = ''p9'', userId = ''A'', timestamp = 9,
                    playCard = \<lparr>cardValue = 1, cardSuit = ''clubs''\<rparr>\<rparr>)) \<and>
   getNextPlayer (state (acceptedMatch (the (run sweep ''m''))
                  \<lparr>playId = ''p9'', userId = ''A'', timestamp = 9,
                    playCard = \<lparr>cardValue = 1, cardSuit = ''clubs''\<rparr>\<rparr>)) =
     getNextPlayer (state (the (run sweep ''m''))) \<and>
   distinct [team1_player1 docAB, team2_player1 docAB, team1_player2 docAB, team2_player2 docAB] \<and>
   plays_getNextPlayer docAB (team1_player1 docAB) = team2_player1 docAB \<and>
   plays_getNextPlayer docAB (team2_player1 docAB) = team1_player2 docAB \<and>
   plays_getNextPlayer docAB (team1_player2 docAB) = team2_player2 docAB \<and>
   plays_getNextPlayer docAB (team2_player2 docAB) = team1_player1 docAB \<and>
   db_get (convex_run overrunC) 0 = Some (the (db_get (convex_run overrunC) 0)) \<and>
   Suc 3 < length (plays_getByMatch (convex_run overrunC) 0) \<and>
   user_id (plays_getByMatch (convex_run overrunC) 0 ! Suc 3) =
     plays_getNextPlayer (the (db_get (convex_run overrunC) 0))
       (user_id (plays_getByMatch (convex_run overrunC) 0 ! 3)) \<and>
   db_get (convex_run sweepC) 0 = Some (the (db_get (convex_run sweepC) 0)) \<and>
   submitPlay_convex (convex_run sweepC) 0 ''A'' (Some 1) ''clubs'' 9 =
     (fst ninthPlayC, snd ninthPlayC) \<and>
   (\<exists>doc' ps. fst ninthPlayC = C_Accepted doc' ps \<and>
      plays_getNextPlayer doc' = plays_getNextPlayer (the (db_get (convex_run sweepC) 0)))"
proof -
  note T = next_player_follows_seat_ring
  note T1 = T[THEN conjunct1, rule_format]
  note T2 = T[THEN conjunct2, THEN conjunct1, rule_format]
  note T3 = T[THEN conjunct2, THEN conjunct2, THEN conjunct1, rule_format]
  note T4 = T[THEN conjunct2, THEN conjunct2, THEN conjunct2, THEN conjunct1, rule_format]
  note T5 = T[THEN conjunct2, THEN conjunct2, THEN conjunct2, THEN conjunct2, THEN conjunct1, rule_format]
  note T6 = T[THEN conjunct2, THEN conjunct2, THEN conjunct2, THEN conjunct2, THEN conjunct2, rule_format]
  let ?mo = "the (run overrun ''m'')"
  let ?m = "the (run sweep ''m'')"
  let ?p = "\<lparr>playId = ''p9'', userId = ''A'', timestamp = 9,
             playCard = \<lparr>cardValue = 1, cardSuit = ''clubs''\<rparr>\<rparr>"
  let ?m' = "acceptedMatch ?m ?p"
  have h1: "distinct [player1 (team1 stateAB), player1 (team2 stateAB),
             player2 (team1 stateAB), player2 (team2 stateAB)]"
    by (simp add: stateAB_def newMatch_def teamAB_def teamCD_def)
  note c1 = T1[where st = stateAB, OF h1]
  have h2: "run overrun ''m'' = Some ?mo"
    using run_overrun_facts(1) by (rule option.collapse[symmetric, OF _])
  have h3: "Suc 3 < length (allPlays ?mo)"
    by (simp add: run_overrun_facts(4))
  have c2: "userId (allPlays ?mo ! Suc 3) = getNextPlayer (state ?mo) (userId (allPlays ?mo ! 3))"
    using T2[where evs = overrun and mid = "''m''" and m = ?mo, OF h2] h3 by blast
  have h4: "run sweep ''m'' = Some ?m"
    using run_sweep_facts(1) by (rule option.collapse[symmetric, OF _])
  have h5: "submitPlay (run sweep) ''m'' ''A'' (Some 1) ''clubs'' ''p9'' 9 =
     (Accepted ?m', (run sweep)(''m'' \<mapsto> ?m'))"
    using ninthPlay_accepted by (simp add: ninthPlay_def)
  have c3: "getNextPlayer (state ?m') = getNextPlayer (state ?m)"
    using T3[where evs = sweep and mid = "''m''" and m = ?m and uid = "''A''" and cv = "Some 1"
        and s = "''clubs''" and pid = "''p9''" and now = 9 and m' = ?m'
        and ms' = "(run sweep)(''m'' \<mapsto> ?m')", OF conjI[OF h4 h5]]
    by blast
  have k1: "distinct [team1_player1 docAB, team2_player1 docAB, team1_player2 docAB, team2_player2 docAB]"
    by (simp add: docAB_def createMatch_convex_def matches_create_def teamAB_def teamCD_def)
  note c4 = T4[where doc = docAB, OF k1]
  have k2: "db_get (convex_run overrunC) 0 = Some (the (db_get (convex_run overrunC) 0))"
    using convex_run_overrunC_facts(1) by (rule option.collapse[symmetric, OF _])
  have k3: "Suc 3 < length (plays_getByMatch (convex_run overrunC) 0)"
    by (simp add: convex_run_overrunC_facts(6))
  have c5: "user_id (plays_getByMatch (convex_run overrunC) 0 ! Suc 3) =
     plays_getNextPlayer (the (db_get (convex_run overrunC) 0))
       (user_id (plays_getByMatch (convex_run overrunC) 0 ! 3))"
    using T5[where cevs = overrunC and i = 0 and cdoc = "the (db_get (convex_run overrunC) 0)", OF k2] k3
    by blast
  have k4: "db_get (convex_run sweepC) 0 = Some (the (db_get (convex_run sweepC) 0))"
    using convex_run_sweepC_facts(1) by (rule option.collapse[symmetric, OF _])
  have k5: "submitPlay_convex (convex_run sweepC) 0 ''A'' (Some 1) ''clubs'' 9 =
     (fst ninthPlayC, snd ninthPlayC)"
    by (simp add: ninthPlayC_def)
  obtain doc' ps where acc: "fst ninthPlayC = C_Accepted doc' ps"
    by (simp add: ninthPlayC_accepted)
  have "plays_getNextPlayer doc' = plays_getNextPlayer (the (db_get (convex_run sweepC) 0))"
    using T6[where d = "convex_run sweepC" and i = 0 and cdoc = "the (db_get (convex_run sweepC) 0)"
        and uid = "''A''" and cv = "Some 1" and s = "''clubs''" and now = 9 and doc' = doc'
        and ps = ps and d' = "snd ninthPlayC"] k4 k5 acc
    by simp
  with acc have c6: "\<exists>doc' ps. fst ninthPlayC = C_Accepted doc' ps \<and>
      plays_getNextPlayer doc' = plays_getNextPlayer (the (db_get (convex_run sweepC) 0))"
    by blast
  show ?thesis
    using h1 c1 h2 h3 c2 h4 h5 c3 k1 c4 k2 k3 c5 k4 k5 c6 by blast
qed

end
